theory Spec2Isabelle
  imports Complex_Main "HOL-Library.Multiset"
begin

section \<open>Python values read from the vendor feed\<close>

text \<open>
  The scripts \<^verbatim>\<open>seller.py\<close> (Ozon) and \<^verbatim>\<open>market.py\<close> (Yandex Market) work on
  the rows of a spreadsheet, each a dictionary whose cells are read with \<^verbatim>\<open>.get\<close>.
  A cell is a text, an integer, or \<^verbatim>\<open>None\<close> (what \<^verbatim>\<open>.get\<close> returns for a key the
  row does not have). Texts are lists of 8-bit characters; a character outside ASCII
  is the sequence of its UTF-8 bytes, none of which is a digit, a period, a sign,
  an underscore or an ASCII blank. Floating-point cells are not modelled. An integer
  cell is a whole number of the sheet, of a few hundred digits at most, so that \<^verbatim>\<open>str\<close>
  of it never meets the limit on the digits of a conversion.
\<close>

datatype error = ValueError | TypeError | AttributeError | IndexError | TransportError

datatype pyval = PStr string | PInt int | PNone

subsection \<open>\<^verbatim>\<open>str()\<close>\<close>

definition digit_char :: "nat \<Rightarrow> char" where
  "digit_char d = char_of (48 + d)"

fun str_of_nat :: "nat \<Rightarrow> string" where
  "str_of_nat n = (if n < 10 then [digit_char n] else str_of_nat (n div 10) @ [digit_char (n mod 10)])"

declare str_of_nat.simps [simp del]

definition str_of_int :: "int \<Rightarrow> string" where
  "str_of_int i = (if i < 0 then CHR ''-'' # str_of_nat (nat (- i)) else str_of_nat (nat i))"

fun py_str :: "pyval \<Rightarrow> string" where
  "py_str (PStr s) = s"
| "py_str (PInt i) = str_of_int i"
| "py_str PNone = ''None''"

subsection \<open>\<^verbatim>\<open>int()\<close>\<close>

text \<open>
  \<^verbatim>\<open>int(x)\<close> returns an integer unchanged and raises \<^verbatim>\<open>TypeError\<close> on \<^verbatim>\<open>None\<close>. On a
  text it works in two steps, as CPython does. First a text that is not pure ASCII is
  rewritten: every character from 127 on becomes a blank when it is a Unicode
  white-space character, the ASCII digit of its value when it is a Unicode decimal
  digit, and a question mark (where the rewriting stops) otherwise; the characters
  below 127 stay, and a pure ASCII text is left as it is. Then the ASCII text is parsed
  in base ten: the blanks \<^verbatim>\<open>\t \n \v \f \r\<close> and the space are skipped at both ends, one
  sign may come first, then at least one digit, where a single underscore may stand
  between two digits. Anything else raises \<^verbatim>\<open>ValueError\<close>, and so does a text with more
  digits than the interpreter's limit.
\<close>

definition is_digit :: "char \<Rightarrow> bool" where
  "is_digit c = ((48::nat) \<le> of_char c \<and> (of_char c :: nat) \<le> 57)"

definition digit_val :: "char \<Rightarrow> nat" where
  "digit_val c = of_char c - 48"

text \<open>The blanks the parser skips (\<^verbatim>\<open>Py_ISSPACE\<close>): the characters 9 to 13 and the space.\<close>

definition is_space :: "char \<Rightarrow> bool" where
  "is_space c = (let k = (of_char c :: nat) in (9 \<le> k \<and> k \<le> 13) \<or> k = 32)"

text \<open>
  The white-space characters of Unicode (\<^verbatim>\<open>Py_UNICODE_ISSPACE\<close>), by code point. The
  rewriting asks only about code points from 127 on.
\<close>

definition unicode_isspace :: "nat \<Rightarrow> bool" where
  "unicode_isspace cp =
     ((9 \<le> cp \<and> cp \<le> 13) \<or> (28 \<le> cp \<and> cp \<le> 32) \<or> cp = 0x85 \<or> cp = 0xA0 \<or> cp = 0x1680
      \<or> (0x2000 \<le> cp \<and> cp \<le> 0x200A) \<or> cp = 0x2028 \<or> cp = 0x2029 \<or> cp = 0x202F
      \<or> cp = 0x205F \<or> cp = 0x3000)"

text \<open>
  The decimal digits of Unicode (\<^verbatim>\<open>Py_UNICODE_TODECIMAL\<close>) come in runs of ten, from the
  digit zero to the digit nine of a script. The table lists the code point of the zero
  of each run, for Unicode 14.0, the version of CPython 3.11.
\<close>

definition decimal_zeros :: "nat list" where
  "decimal_zeros =
    [0x30, 0x660, 0x6F0, 0x7C0, 0x966, 0x9E6, 0xA66, 0xAE6,
     0xB66, 0xBE6, 0xC66, 0xCE6, 0xD66, 0xDE6, 0xE50, 0xED0,
     0xF20, 0x1040, 0x1090, 0x17E0, 0x1810, 0x1946, 0x19D0, 0x1A80,
     0x1A90, 0x1B50, 0x1BB0, 0x1C40, 0x1C50, 0xA620, 0xA8D0, 0xA900,
     0xA9D0, 0xA9F0, 0xAA50, 0xABF0, 0xFF10, 0x104A0, 0x10D30, 0x11066,
     0x110F0, 0x11136, 0x111D0, 0x112F0, 0x11450, 0x114D0, 0x11650, 0x116C0,
     0x11730, 0x118E0, 0x11950, 0x11C50, 0x11D50, 0x11DA0, 0x16A60, 0x16AC0,
     0x16B50, 0x1D7CE, 0x1D7D8, 0x1D7E2, 0x1D7EC, 0x1D7F6, 0x1E140, 0x1E2F0,
     0x1E950, 0x1FBF0]"

definition unicode_todecimal :: "nat \<Rightarrow> nat option" where
  "unicode_todecimal cp =
     map_option (\<lambda>z. cp - z) (find (\<lambda>z. z \<le> cp \<and> cp < z + 10) decimal_zeros)"

text \<open>
  A text is the list of its UTF-8 bytes; its characters are read back from them. A
  list of bytes that is not UTF-8 is the text of no Python value and has no reading.
\<close>

definition is_cont :: "nat \<Rightarrow> bool" where
  "is_cont b = (0x80 \<le> b \<and> b \<le> 0xBF)"

fun utf8_decode :: "nat list \<Rightarrow> nat list option" where
  "utf8_decode [] = Some []"
| "utf8_decode (b # bs) =
     (if b < 0x80 then map_option ((#) b) (utf8_decode bs)
      else if 0xC2 \<le> b \<and> b \<le> 0xDF then
        (case bs of
           c1 # r \<Rightarrow>
             if is_cont c1
             then map_option ((#) ((b - 0xC0) * 64 + (c1 - 0x80))) (utf8_decode r)
             else None
         | _ \<Rightarrow> None)
      else if 0xE0 \<le> b \<and> b \<le> 0xEF then
        (case bs of
           c1 # c2 # r \<Rightarrow>
             (let cp = (b - 0xE0) * 4096 + (c1 - 0x80) * 64 + (c2 - 0x80)
              in if is_cont c1 \<and> is_cont c2 \<and> 0x800 \<le> cp \<and> \<not> (0xD800 \<le> cp \<and> cp \<le> 0xDFFF)
                 then map_option ((#) cp) (utf8_decode r)
                 else None)
         | _ \<Rightarrow> None)
      else if 0xF0 \<le> b \<and> b \<le> 0xF4 then
        (case bs of
           c1 # c2 # c3 # r \<Rightarrow>
             (let cp = (b - 0xF0) * 262144 + (c1 - 0x80) * 4096 + (c2 - 0x80) * 64 + (c3 - 0x80)
              in if is_cont c1 \<and> is_cont c2 \<and> is_cont c3 \<and> 0x10000 \<le> cp \<and> cp \<le> 0x10FFFF
                 then map_option ((#) cp) (utf8_decode r)
                 else None)
         | _ \<Rightarrow> None)
      else None)"

text \<open>
  The rewriting of a text that is not pure ASCII
  (\<^verbatim>\<open>_PyUnicode_TransformDecimalAndSpaceToASCII\<close>), character by character.
\<close>

fun transform_decimal_and_space :: "nat list \<Rightarrow> string" where
  "transform_decimal_and_space [] = []"
| "transform_decimal_and_space (cp # cps) =
     (if cp < 127 then char_of cp # transform_decimal_and_space cps
      else if unicode_isspace cp then CHR '' '' # transform_decimal_and_space cps
      else (case unicode_todecimal cp of
              Some d \<Rightarrow> digit_char d # transform_decimal_and_space cps
            | None \<Rightarrow> ''?''))"

definition to_ascii :: "string \<Rightarrow> string" where
  "to_ascii s =
     (if list_all (\<lambda>c. (of_char c :: nat) < 128) s then s
      else (case utf8_decode (map of_char s) of
              Some cps \<Rightarrow> transform_decimal_and_space cps
            | None \<Rightarrow> ''?''))"

definition strip :: "string \<Rightarrow> string" where
  "strip s = rev (dropWhile is_space (rev (dropWhile is_space s)))"

fun digits_acc :: "nat \<Rightarrow> string \<Rightarrow> nat option" where
  "digits_acc a [] = Some a"
| "digits_acc a [c] = (if is_digit c then Some (10 * a + digit_val c) else None)"
| "digits_acc a (c # d # ds) =
     (if is_digit c then digits_acc (10 * a + digit_val c) (d # ds)
      else if c = CHR ''_'' \<and> is_digit d then digits_acc (10 * a + digit_val d) ds
      else None)"

fun parse_digits :: "string \<Rightarrow> nat option" where
  "parse_digits [] = None"
| "parse_digits (c # cs) = (if is_digit c then digits_acc (digit_val c) cs else None)"

text \<open>
  The limit on the number of digits of a text, underscores not counted: 4300 unless the
  interpreter is told otherwise, which the scripts do not do.
\<close>

definition max_str_digits :: nat where
  "max_str_digits = 4300"

definition int_of_string :: "string \<Rightarrow> error + int" where
  "int_of_string s =
     (let t = strip (to_ascii s);
          (sign, body) = (case t of
                            c # r \<Rightarrow> if c = CHR ''+'' then (1, r)
                                     else if c = CHR ''-'' then (- 1, r)
                                     else (1, t)
                          | [] \<Rightarrow> (1, t))
      in case parse_digits body of
           None \<Rightarrow> Inl ValueError
         | Some n \<Rightarrow>
             if max_str_digits < length (filter is_digit body) then Inl ValueError
             else Inr (sign * int n))"

fun py_int :: "pyval \<Rightarrow> error + int" where
  "py_int (PInt i) = Inr i"
| "py_int (PStr s) = int_of_string s"
| "py_int PNone = Inl TypeError"

section \<open>Records\<close>

text \<open>
  A row of the vendor feed, with the cells the scripts read: \<open>kod\<close> is the column
  of the item code, \<open>kolichestvo\<close> the quantity, \<open>tsena\<close> the price.
\<close>

record watch =
  kod :: pyval
  kolichestvo :: pyval
  tsena :: pyval

text \<open>The dictionaries \<^verbatim>\<open>seller.py\<close> sends to Ozon.\<close>

record ozon_stock =
  offer_id :: string
  stock :: int

record ozon_price =
  auto_action_enabled :: string
  currency_code :: string
  price_offer_id :: string
  old_price :: string
  price :: string

text \<open>The dictionaries \<^verbatim>\<open>market.py\<close> sends to Yandex Market.\<close>

record market_item =
  item_count :: int
  item_type :: string
  updatedAt :: string

record market_stock =
  sku :: string
  warehouseId :: string
  items :: "market_item list"

record market_price_value =
  price_value :: int
  currencyId :: string

record market_price =
  price_id :: string
  price_body :: market_price_value

section \<open>Stock reconciliation\<close>

text \<open>
  The quantity rule written inline in both \<^verbatim>\<open>create_stocks\<close>:
  \<^verbatim>\<open>count = str(watch.get(...))\<close>, then \<^verbatim>\<open>">10"\<close> gives 100, \<^verbatim>\<open>"1"\<close> gives 0, and
  anything else is \<^verbatim>\<open>int(watch.get(...))\<close> of the cell itself.
\<close>

definition stock_count :: "pyval \<Rightarrow> error + int" where
  "stock_count q =
     (let count = py_str q
      in if count = ''>10'' then Inr 100
         else if count = ''1'' then Inr 0
         else py_int q)"

text \<open>
  The first loop of \<^verbatim>\<open>create_stocks\<close> in \<^verbatim>\<open>seller.py\<close>. It appends to \<open>stocks\<close> and
  removes from \<open>offer_ids\<close>, the caller's list, which is returned with the result:
  also when \<^verbatim>\<open>int\<close> raises, since the removals done so far stay.
\<close>

fun stocks_loop :: "watch list \<Rightarrow> ozon_stock list \<Rightarrow> string list \<Rightarrow> (error + ozon_stock list) \<times> string list" where
  "stocks_loop [] stocks offer_ids = (Inr stocks, offer_ids)"
| "stocks_loop (w # ws) stocks offer_ids =
     (if py_str (kod w) \<in> set offer_ids then
        (case stock_count (kolichestvo w) of
           Inl e \<Rightarrow> (Inl e, offer_ids)
         | Inr s \<Rightarrow>
             stocks_loop ws (stocks @ [\<lparr>offer_id = py_str (kod w), stock = s\<rparr>])
               (remove1 (py_str (kod w)) offer_ids))
      else stocks_loop ws stocks offer_ids)"

definition create_stocks :: "watch list \<Rightarrow> string list \<Rightarrow> (error + ozon_stock list) \<times> string list" where
  "create_stocks watch_remnants offer_ids =
     (case stocks_loop watch_remnants [] offer_ids of
        (Inl e, rest) \<Rightarrow> (Inl e, rest)
      | (Inr stocks, rest) \<Rightarrow>
          (Inr (stocks @ map (\<lambda>i. \<lparr>offer_id = i, stock = 0\<rparr>) rest), rest))"

text \<open>
  \<^verbatim>\<open>create_stocks\<close> of \<^verbatim>\<open>market.py\<close>: the same two loops, building the nested
  record. \<open>date\<close> is the text of the clock reading taken once before the loops.
\<close>

definition market_entry :: "string \<Rightarrow> string \<Rightarrow> string \<Rightarrow> int \<Rightarrow> market_stock" where
  "market_entry warehouse_id date i n =
     \<lparr>sku = i, warehouseId = warehouse_id,
      items = [\<lparr>item_count = n, item_type = ''FIT'', updatedAt = date\<rparr>]\<rparr>"

fun market_stocks_loop ::
  "string \<Rightarrow> string \<Rightarrow> watch list \<Rightarrow> market_stock list \<Rightarrow> string list \<Rightarrow> (error + market_stock list) \<times> string list" where
  "market_stocks_loop warehouse_id date [] stocks offer_ids = (Inr stocks, offer_ids)"
| "market_stocks_loop warehouse_id date (w # ws) stocks offer_ids =
     (if py_str (kod w) \<in> set offer_ids then
        (case stock_count (kolichestvo w) of
           Inl e \<Rightarrow> (Inl e, offer_ids)
         | Inr s \<Rightarrow>
             market_stocks_loop warehouse_id date ws
               (stocks @ [market_entry warehouse_id date (py_str (kod w)) s])
               (remove1 (py_str (kod w)) offer_ids))
      else market_stocks_loop warehouse_id date ws stocks offer_ids)"

definition market_create_stocks ::
  "string \<Rightarrow> watch list \<Rightarrow> string list \<Rightarrow> string \<Rightarrow> (error + market_stock list) \<times> string list" where
  "market_create_stocks date watch_remnants offer_ids warehouse_id =
     (case market_stocks_loop warehouse_id date watch_remnants [] offer_ids of
        (Inl e, rest) \<Rightarrow> (Inl e, rest)
      | (Inr stocks, rest) \<Rightarrow>
          (Inr (stocks @ map (\<lambda>i. market_entry warehouse_id date i 0) rest), rest))"

section \<open>Prices\<close>

text \<open>
  \<^verbatim>\<open>price.split(".")\<close>: the pieces of a text between the occurrences of a separator
  character. The result is never empty; \<^verbatim>\<open>[0]\<close> on it is still written as a lookup
  that can fail.
\<close>

fun split_on :: "char \<Rightarrow> string \<Rightarrow> string list" where
  "split_on sep [] = [[]]"
| "split_on sep (c # cs) =
     (if c = sep then [] # split_on sep cs
      else (case split_on sep cs of
              p # ps \<Rightarrow> (c # p) # ps
            | [] \<Rightarrow> [[c]]))"

text \<open>\<^verbatim>\<open>re.sub("[^0-9]", "", s)\<close> deletes every character that is not an ASCII digit.\<close>

definition re_sub_non_digits :: "string \<Rightarrow> string" where
  "re_sub_non_digits s = filter is_digit s"

text \<open>
  \<^verbatim>\<open>price_conversion\<close> of \<^verbatim>\<open>seller.py\<close>, which \<^verbatim>\<open>market.py\<close> imports. A value that is
  not a text has no \<^verbatim>\<open>split\<close>: \<^verbatim>\<open>AttributeError\<close>.
\<close>

definition price_conversion :: "pyval \<Rightarrow> error + string" where
  "price_conversion p =
     (case p of
        PStr s \<Rightarrow>
          (case split_on (CHR ''.'') s of
             part # _ \<Rightarrow> Inr (re_sub_non_digits part)
           | [] \<Rightarrow> Inl IndexError)
      | _ \<Rightarrow> Inl AttributeError)"

text \<open>
  \<^verbatim>\<open>create_prices\<close> of \<^verbatim>\<open>seller.py\<close>: one loop over the rows. The caller's list
  \<open>offer_ids\<close> is threaded through the loop and returned, as in \<open>stocks_loop\<close>.
\<close>

fun prices_loop :: "watch list \<Rightarrow> ozon_price list \<Rightarrow> string list \<Rightarrow> (error + ozon_price list) \<times> string list" where
  "prices_loop [] prices offer_ids = (Inr prices, offer_ids)"
| "prices_loop (w # ws) prices offer_ids =
     (if py_str (kod w) \<in> set offer_ids then
        (case price_conversion (tsena w) of
           Inl e \<Rightarrow> (Inl e, offer_ids)
         | Inr p \<Rightarrow>
             prices_loop ws
               (prices @ [\<lparr>auto_action_enabled = ''UNKNOWN'', currency_code = ''RUB'',
                           price_offer_id = py_str (kod w), old_price = ''0'', price = p\<rparr>])
               offer_ids)
      else prices_loop ws prices offer_ids)"

definition create_prices :: "watch list \<Rightarrow> string list \<Rightarrow> (error + ozon_price list) \<times> string list" where
  "create_prices watch_remnants offer_ids = prices_loop watch_remnants [] offer_ids"

text \<open>\<^verbatim>\<open>create_prices\<close> of \<^verbatim>\<open>market.py\<close>: the price is \<^verbatim>\<open>int(price_conversion(...))\<close>.\<close>

fun market_prices_loop :: "watch list \<Rightarrow> market_price list \<Rightarrow> string list \<Rightarrow> (error + market_price list) \<times> string list" where
  "market_prices_loop [] prices offer_ids = (Inr prices, offer_ids)"
| "market_prices_loop (w # ws) prices offer_ids =
     (if py_str (kod w) \<in> set offer_ids then
        (case price_conversion (tsena w) of
           Inl e \<Rightarrow> (Inl e, offer_ids)
         | Inr p \<Rightarrow>
             (case py_int (PStr p) of
                Inl e \<Rightarrow> (Inl e, offer_ids)
              | Inr v \<Rightarrow>
                  market_prices_loop ws
                    (prices @ [\<lparr>price_id = py_str (kod w),
                                price_body = \<lparr>price_value = v, currencyId = ''RUR''\<rparr>\<rparr>])
                    offer_ids))
      else market_prices_loop ws prices offer_ids)"

definition market_create_prices :: "watch list \<Rightarrow> string list \<Rightarrow> (error + market_price list) \<times> string list" where
  "market_create_prices watch_remnants offer_ids = market_prices_loop watch_remnants [] offer_ids"

section \<open>Batches\<close>

text \<open>
  \<^verbatim>\<open>range(start, stop, step)\<close>: a zero step raises \<^verbatim>\<open>ValueError\<close>; a positive step
  counts up while below \<open>stop\<close>, a negative one counts down while above it.
\<close>

function range_from :: "int \<Rightarrow> int \<Rightarrow> int \<Rightarrow> int list" where
  "range_from i stop step =
     (if 0 < step \<and> i < stop then i # range_from (i + step) stop step
      else if step < 0 \<and> stop < i then i # range_from (i + step) stop step
      else [])"
  by pat_completeness auto
termination
  by (relation "measure (\<lambda>(i, stop, step). nat (if 0 < step then stop - i else i - stop))") auto

declare range_from.simps [simp del]

definition py_range :: "int \<Rightarrow> int \<Rightarrow> int \<Rightarrow> error + int list" where
  "py_range start stop step = (if step = 0 then Inl ValueError else Inr (range_from start stop step))"

text \<open>
  A slice \<^verbatim>\<open>lst[a:b]\<close>: a negative bound counts from the end, and both bounds are
  clamped to the list.
\<close>

definition slice_index :: "int \<Rightarrow> int \<Rightarrow> nat" where
  "slice_index n k = nat (min n (max 0 (if k < 0 then k + n else k)))"

definition py_slice :: "'a list \<Rightarrow> int \<Rightarrow> int \<Rightarrow> 'a list" where
  "py_slice lst a b =
     (let n = int (length lst); lo = slice_index n a; hi = slice_index n b
      in take (hi - lo) (drop lo lst))"

text \<open>
  \<^verbatim>\<open>divide\<close> is a generator; every caller takes \<^verbatim>\<open>list(divide(lst, n))\<close>, the list of
  all the chunks, which is what the model returns.
\<close>

definition divide :: "'a list \<Rightarrow> int \<Rightarrow> error + 'a list list" where
  "divide lst n =
     (case py_range 0 (int (length lst)) n of
        Inl e \<Rightarrow> Inl e
      | Inr starts \<Rightarrow> Inr (map (\<lambda>i. py_slice lst i (i + n)) starts))"

section \<open>Fetching the catalogue\<close>

text \<open>
  \<^verbatim>\<open>get_product_list\<close> is a request to the marketplace. The marketplace is a parameter:
  \<open>srv k cursor\<close> is its reply to the request number \<open>k\<close> of a run (counted from 0)
  that carries \<open>cursor\<close>; the reply is a page, or a failure of the transport.
\<close>

record ozon_product =
  product_offer_id :: string

record ozon_page =
  ozon_items :: "ozon_product list"
  total :: int
  last_id :: string

type_synonym ozon_server = "nat \<Rightarrow> string \<Rightarrow> error + ozon_page"

text \<open>
  The \<^verbatim>\<open>while True\<close> loop of \<^verbatim>\<open>get_offer_ids\<close> in \<^verbatim>\<open>seller.py\<close>. It need not come
  to an end: the value \<open>None\<close> stands for a run that never leaves the loop.
\<close>

partial_function (option) ozon_fetch ::
  "ozon_server \<Rightarrow> nat \<Rightarrow> string \<Rightarrow> ozon_product list \<Rightarrow> (error + ozon_product list) option" where
  "ozon_fetch get_product_list k last_id' product_list =
     (case get_product_list k last_id' of
        Inl e \<Rightarrow> Some (Inl e)
      | Inr some_prod \<Rightarrow>
          (let product_list' = product_list @ ozon_items some_prod
           in if total some_prod = int (length product_list') then Some (Inr product_list')
              else ozon_fetch get_product_list (Suc k) (last_id some_prod) product_list'))"

definition get_offer_ids :: "ozon_server \<Rightarrow> (error + string list) option" where
  "get_offer_ids get_product_list =
     (case ozon_fetch get_product_list 0 [] [] of
        None \<Rightarrow> None
      | Some (Inl e) \<Rightarrow> Some (Inl e)
      | Some (Inr product_list) \<Rightarrow> Some (Inr (map product_offer_id product_list)))"

record market_offer =
  shopSku :: string

record offer_mapping_entry =
  offer :: market_offer

record market_paging =
  nextPageToken :: "string option"

record market_page =
  offerMappingEntries :: "offer_mapping_entry list"
  paging :: market_paging

type_synonym market_server = "nat \<Rightarrow> string option \<Rightarrow> error + market_page"

text \<open>
  The loop of \<^verbatim>\<open>get_offer_ids\<close> in \<^verbatim>\<open>market.py\<close>. \<^verbatim>\<open>not page\<close> holds of an absent token
  and of the empty text.
\<close>

definition falsy :: "string option \<Rightarrow> bool" where
  "falsy page = (case page of None \<Rightarrow> True | Some t \<Rightarrow> t = [])"

partial_function (option) market_fetch ::
  "market_server \<Rightarrow> nat \<Rightarrow> string option \<Rightarrow> offer_mapping_entry list \<Rightarrow> (error + offer_mapping_entry list) option" where
  "market_fetch get_product_list k page product_list =
     (case get_product_list k page of
        Inl e \<Rightarrow> Some (Inl e)
      | Inr some_prod \<Rightarrow>
          (let product_list' = product_list @ offerMappingEntries some_prod;
               page' = nextPageToken (paging some_prod)
           in if falsy page' then Some (Inr product_list')
              else market_fetch get_product_list (Suc k) page' product_list'))"

definition market_get_offer_ids :: "market_server \<Rightarrow> (error + string list) option" where
  "market_get_offer_ids get_product_list =
     (case market_fetch get_product_list 0 (Some []) [] of
        None \<Rightarrow> None
      | Some (Inl e) \<Rightarrow> Some (Inl e)
      | Some (Inr product_list) \<Rightarrow> Some (Inr (map (\<lambda>product. shopSku (offer product)) product_list)))"

section \<open>Notions used to state the properties\<close>

text \<open>The codes of the rows of a feed, as texts.\<close>

definition codes :: "watch list \<Rightarrow> string set" where
  "codes V = (\<lambda>w. py_str (kod w)) ` set V"

text \<open>Identifier \<open>i\<close> has a row in \<open>V\<close> whose quantity the rule turns into \<open>n\<close>.\<close>

definition matched :: "watch list \<Rightarrow> string \<Rightarrow> int \<Rightarrow> bool" where
  "matched V i n = (\<exists>w\<in>set V. py_str (kod w) = i \<and> stock_count (kolichestvo w) = Inr n)"

text \<open>
  The quantity of every row whose code is among the identifiers is one the rule accepts
  (\<^verbatim>\<open>int\<close> does not raise on it).
\<close>

definition quantities_parse :: "watch list \<Rightarrow> string list \<Rightarrow> bool" where
  "quantities_parse V ids =
     (\<forall>w\<in>set V. py_str (kod w) \<in> set ids \<longrightarrow> (\<exists>n. stock_count (kolichestvo w) = Inr n))"

text \<open>
  A run of \<^verbatim>\<open>get_offer_ids\<close> against a marketplace \<open>srv\<close>, as long as it goes on: the
  cursor sent with request \<open>k\<close> (the empty text first, then the \<^verbatim>\<open>last_id\<close> of the
  reply before), the reply to it, its items, and all the items fetched up to and
  including reply \<open>k\<close>.
\<close>

primrec ozon_cursor :: "ozon_server \<Rightarrow> nat \<Rightarrow> string" where
  "ozon_cursor srv 0 = []"
| "ozon_cursor srv (Suc k) = (case srv k (ozon_cursor srv k) of Inr p \<Rightarrow> last_id p | Inl e \<Rightarrow> [])"

definition ozon_reply :: "ozon_server \<Rightarrow> nat \<Rightarrow> error + ozon_page" where
  "ozon_reply srv k = srv k (ozon_cursor srv k)"

definition ozon_reply_items :: "ozon_server \<Rightarrow> nat \<Rightarrow> ozon_product list" where
  "ozon_reply_items srv k = (case ozon_reply srv k of Inr p \<Rightarrow> ozon_items p | Inl e \<Rightarrow> [])"

definition ozon_fetched :: "ozon_server \<Rightarrow> nat \<Rightarrow> ozon_product list" where
  "ozon_fetched srv k = concat (map (ozon_reply_items srv) [0..<Suc k])"

text \<open>
  Reply \<open>k\<close> signals the end: it is a page whose \<^verbatim>\<open>total\<close> is the number of items
  fetched so far. Reply \<open>k\<close> lets the run go on: it is a page that does not signal the end.
\<close>

definition ozon_signal :: "ozon_server \<Rightarrow> nat \<Rightarrow> bool" where
  "ozon_signal srv k =
     (case ozon_reply srv k of
        Inr p \<Rightarrow> total p = int (length (ozon_fetched srv k))
      | Inl e \<Rightarrow> False)"

definition ozon_continues :: "ozon_server \<Rightarrow> nat \<Rightarrow> bool" where
  "ozon_continues srv k =
     (case ozon_reply srv k of
        Inr p \<Rightarrow> total p \<noteq> int (length (ozon_fetched srv k))
      | Inl e \<Rightarrow> False)"

text \<open>The same for \<^verbatim>\<open>market.py\<close>, where the end is signalled by an empty or absent token.\<close>

primrec market_cursor :: "market_server \<Rightarrow> nat \<Rightarrow> string option" where
  "market_cursor srv 0 = Some []"
| "market_cursor srv (Suc k) =
     (case srv k (market_cursor srv k) of Inr p \<Rightarrow> nextPageToken (paging p) | Inl e \<Rightarrow> None)"

definition market_reply :: "market_server \<Rightarrow> nat \<Rightarrow> error + market_page" where
  "market_reply srv k = srv k (market_cursor srv k)"

definition market_reply_entries :: "market_server \<Rightarrow> nat \<Rightarrow> offer_mapping_entry list" where
  "market_reply_entries srv k =
     (case market_reply srv k of Inr p \<Rightarrow> offerMappingEntries p | Inl e \<Rightarrow> [])"

definition market_fetched :: "market_server \<Rightarrow> nat \<Rightarrow> offer_mapping_entry list" where
  "market_fetched srv k = concat (map (market_reply_entries srv) [0..<Suc k])"

definition market_signal :: "market_server \<Rightarrow> nat \<Rightarrow> bool" where
  "market_signal srv k =
     (case market_reply srv k of
        Inr p \<Rightarrow> falsy (nextPageToken (paging p))
      | Inl e \<Rightarrow> False)"

definition market_continues :: "market_server \<Rightarrow> nat \<Rightarrow> bool" where
  "market_continues srv k =
     (case market_reply srv k of
        Inr p \<Rightarrow> \<not> falsy (nextPageToken (paging p))
      | Inl e \<Rightarrow> False)"

text \<open>The items fetched before request \<open>k\<close>: the loop's \<^verbatim>\<open>product_list\<close> at that point.\<close>

definition ozon_before :: "ozon_server \<Rightarrow> nat \<Rightarrow> ozon_product list" where
  "ozon_before srv k = concat (map (ozon_reply_items srv) [0..<k])"

definition market_before :: "market_server \<Rightarrow> nat \<Rightarrow> offer_mapping_entry list" where
  "market_before srv k = concat (map (market_reply_entries srv) [0..<k])"

text \<open>The number a text of decimal digits denotes, by the place of each digit.\<close>

definition decimal_value :: "string \<Rightarrow> nat" where
  "decimal_value ds = (\<Sum>i<length ds. digit_val (ds ! i) * 10 ^ (length ds - Suc i))"

section \<open>What \<^verbatim>\<open>int\<close> and \<^verbatim>\<open>str\<close> compute\<close>

lemma decimal_value_Nil: "decimal_value [] = 0"
  by (simp add: decimal_value_def)

lemma decimal_value_Cons:
  "decimal_value (c # cs) = digit_val c * 10 ^ length cs + decimal_value cs"
  unfolding decimal_value_def by (simp add: sum.lessThan_Suc_shift del: sum.lessThan_Suc)

lemma digits_acc_digits:
  "list_all is_digit ds \<Longrightarrow> digits_acc a ds = Some (a * 10 ^ length ds + decimal_value ds)"
proof (induction ds arbitrary: a)
  case Nil
  show ?case by (simp add: decimal_value_Nil)
next
  case (Cons c cs)
  then have c: "is_digit c" and cs: "list_all is_digit cs" by simp_all
  show ?case
  proof (cases cs)
    case Nil
    then show ?thesis using c by (simp add: decimal_value_Cons decimal_value_Nil)
  next
    case (Cons d r)
    have "digits_acc a (c # cs) = digits_acc (10 * a + digit_val c) cs"
      using c Cons by simp
    also have "\<dots> = Some ((10 * a + digit_val c) * 10 ^ length cs + decimal_value cs)"
      using Cons.IH[OF cs] .
    also have "(10 * a + digit_val c) * 10 ^ length cs + decimal_value cs
        = a * 10 ^ length (c # cs) + decimal_value (c # cs)"
      by (simp add: decimal_value_Cons algebra_simps)
    finally show ?thesis .
  qed
qed

lemma parse_digits_digits:
  assumes "ds \<noteq> []" and "list_all is_digit ds"
  shows "parse_digits ds = Some (decimal_value ds)"
proof -
  from assms(1) obtain c cs where ds: "ds = c # cs" by (cases ds) auto
  with assms(2) have c: "is_digit c" and cs: "list_all is_digit cs" by simp_all
  show ?thesis
    using c digits_acc_digits[OF cs, of "digit_val c"]
    by (simp add: ds decimal_value_Cons)
qed

lemma is_space_ascii: "is_space c \<Longrightarrow> (of_char c :: nat) < 128"
  by (auto simp: is_space_def Let_def)

lemma is_digit_ascii: "is_digit c \<Longrightarrow> (of_char c :: nat) < 128"
  by (simp add: is_digit_def)

lemma is_digit_not_space: "is_digit c \<Longrightarrow> \<not> is_space c"
  by (auto simp: is_digit_def is_space_def Let_def)

lemma is_digit_not_sign: "is_digit c \<Longrightarrow> c \<noteq> CHR ''+'' \<and> c \<noteq> CHR ''-'' \<and> c \<noteq> CHR ''>''"
  by (auto simp: is_digit_def)

lemma strip_padded:
  assumes "list_all is_space pre" and "list_all is_space post"
    and "x \<noteq> []" and "\<not> is_space (hd x)" and "\<not> is_space (last x)"
  shows "strip (pre @ x @ post) = x"
proof -
  have 1: "dropWhile is_space (pre @ x @ post) = x @ post"
  proof -
    have "dropWhile is_space (pre @ (x @ post)) = dropWhile is_space (x @ post)"
      using assms(1) by (intro dropWhile_append2) (simp add: list_all_iff)
    moreover have "dropWhile is_space (x @ post) = x @ post"
      using assms(3,4) by (cases x) simp_all
    ultimately show ?thesis by simp
  qed
  have 2: "dropWhile is_space (rev post @ rev x) = rev x"
  proof -
    have "dropWhile is_space (rev post @ rev x) = dropWhile is_space (rev x)"
      using assms(2) by (intro dropWhile_append2) (simp add: list_all_iff)
    moreover have "dropWhile is_space (rev x) = rev x"
      using assms(3,5) by (cases x rule: rev_cases) simp_all
    ultimately show ?thesis by simp
  qed
  show ?thesis by (simp add: strip_def 1 2)
qed

lemma int_of_string_plain:
  assumes pre: "list_all is_space pre" and post: "list_all is_space post"
    and sg: "sg \<in> {[], ''+'', ''-''}"
    and ne: "ds \<noteq> []" and dig: "list_all is_digit ds"
  shows "int_of_string (pre @ sg @ ds @ post)
           = (if max_str_digits < length ds then Inl ValueError
              else Inr ((if sg = ''-'' then - 1 else 1) * int (decimal_value ds)))"
proof -
  let ?x = "sg @ ds"
  have asc: "list_all (\<lambda>c. (of_char c :: nat) < 128) (pre @ sg @ ds @ post)"
    using pre post sg dig by (auto simp: list_all_iff is_space_ascii is_digit_ascii)
  then have ta: "to_ascii (pre @ sg @ ds @ post) = pre @ ?x @ post"
    by (simp add: to_ascii_def)
  have hdx: "\<not> is_space (hd ?x)"
  proof (cases "sg = []")
    case True
    then show ?thesis using ne dig by (cases ds) (simp_all add: is_digit_not_space)
  next
    case False
    then show ?thesis using sg by (auto simp: is_space_def Let_def)
  qed
  have lastx: "\<not> is_space (last ?x)"
    using ne dig by (cases ds rule: rev_cases) (simp_all add: is_digit_not_space)
  have st: "strip (pre @ ?x @ post) = ?x"
    using strip_padded[OF pre post _ hdx lastx] ne by simp
  have pd: "parse_digits ds = Some (decimal_value ds)"
    by (rule parse_digits_digits[OF ne dig])
  have cnt: "length (filter is_digit ds) = length ds"
    using dig by (simp add: list_all_iff)
  from ne obtain c cs where ds: "ds = c # cs" by (cases ds) auto
  with dig have c: "c \<noteq> CHR ''+'' \<and> c \<noteq> CHR ''-''" using is_digit_not_sign by simp
  have st': "strip (pre @ sg @ ds @ post) = sg @ ds" using st by simp
  have sp: "(case sg @ ds of
               c # r \<Rightarrow> if c = CHR ''+'' then (1, r)
                        else if c = CHR ''-'' then (- 1, r)
                        else (1, sg @ ds)
             | [] \<Rightarrow> (1, sg @ ds))
            = ((if sg = ''-'' then - 1 else 1 :: int), ds)"
    using sg c ds by auto
  have ta': "to_ascii (pre @ sg @ ds @ post) = pre @ sg @ ds @ post" using ta by simp
  show ?thesis
    unfolding int_of_string_def ta' st' Let_def sp
    using pd cnt by simp
qed

lemma digit_char_digit: "d < 10 \<Longrightarrow> is_digit (digit_char d)"
  by (simp add: is_digit_def digit_char_def)

lemma str_of_nat_digits: "list_all is_digit (str_of_nat n)"
proof (induction n rule: str_of_nat.induct)
  case (1 n)
  show ?case
  proof (cases "n < 10")
    case True
    then show ?thesis by (subst str_of_nat.simps) (simp add: digit_char_digit)
  next
    case False
    then show ?thesis
      using "1.IH" by (subst str_of_nat.simps) (simp add: digit_char_digit)
  qed
qed

lemma str_of_nat_nonempty: "str_of_nat n \<noteq> []"
  by (subst str_of_nat.simps) simp

lemma str_of_nat_one: "str_of_nat n = ''1'' \<longleftrightarrow> n = 1"
proof
  assume a: "str_of_nat n = ''1''"
  show "n = 1"
  proof (cases "n < 10")
    case True
    then have "[digit_char n] = ''1''" using a by (subst (asm) str_of_nat.simps) simp
    then have "(of_char (digit_char n) :: nat) = of_char (CHR ''1'')" by simp
    then show ?thesis using True by (simp add: digit_char_def)
  next
    case False
    then have "str_of_nat (n div 10) @ [digit_char (n mod 10)] = ''1''"
      using a by (subst (asm) str_of_nat.simps) simp
    then have "str_of_nat (n div 10) = []" by (cases "str_of_nat (n div 10)") simp_all
    then show ?thesis using str_of_nat_nonempty by blast
  qed
next
  assume n: "n = 1"
  have "str_of_nat 1 = ''1''" by code_simp
  with n show "str_of_nat n = ''1''" by simp
qed

lemma str_of_int_one: "str_of_int i = ''1'' \<longleftrightarrow> i = 1"
  by (auto simp: str_of_int_def str_of_nat_one)

lemma str_of_int_not_gt10: "str_of_int i \<noteq> ''>10''"
proof
  assume a: "str_of_int i = ''>10''"
  show False
  proof (cases "i < 0")
    case True
    with a show False by (simp add: str_of_int_def)
  next
    case False
    with a have "str_of_nat (nat i) = ''>10''" by (simp add: str_of_int_def)
    moreover have "list_all is_digit (str_of_nat (nat i))" by (rule str_of_nat_digits)
    ultimately show False by (simp add: is_digit_def)
  qed
qed

lemma stock_count_int: "stock_count (PInt i) = (if i = 1 then Inr 0 else Inr i)"
  by (simp add: stock_count_def str_of_int_one str_of_int_not_gt10)

section \<open>Reconciliation: what the loops keep\<close>

lemma matched_Cons: "matched ws i n \<Longrightarrow> matched (w # ws) i n"
  by (auto simp: matched_def)

lemma stocks_loop_inv:
  "stocks_loop V acc ids = (Inr out, rest) \<Longrightarrow>
     \<exists>m. out = acc @ m \<and> mset (map offer_id m) + mset rest = mset ids
        \<and> (\<forall>r\<in>set m. matched V (offer_id r) (stock r))"
proof (induction V arbitrary: acc ids)
  case Nil
  then show ?case by simp
next
  case (Cons w ws)
  show ?case
  proof (cases "py_str (kod w) \<in> set ids")
    case False
    with Cons.prems have "stocks_loop ws acc ids = (Inr out, rest)" by simp
    from Cons.IH[OF this] show ?thesis by (auto intro: matched_Cons)
  next
    case True
    with Cons.prems obtain s where s: "stock_count (kolichestvo w) = Inr s"
      and run: "stocks_loop ws (acc @ [\<lparr>offer_id = py_str (kod w), stock = s\<rparr>]) (remove1 (py_str (kod w)) ids) = (Inr out, rest)"
      by (auto split: sum.splits)
    from Cons.IH[OF run] obtain m where m: "out = (acc @ [\<lparr>offer_id = py_str (kod w), stock = s\<rparr>]) @ m"
      "mset (map offer_id m) + mset rest = mset (remove1 (py_str (kod w)) ids)"
      "\<forall>r\<in>set m. matched ws (offer_id r) (stock r)" by blast
    have hd: "matched (w # ws) (py_str (kod w)) s" using s by (simp add: matched_def)
    let ?m = "\<lparr>offer_id = py_str (kod w), stock = s\<rparr> # m"
    have "out = acc @ ?m" using m(1) by simp
    moreover have "mset (map offer_id ?m) + mset rest = mset ids"
      using m(2) True by simp
    moreover have "\<forall>r\<in>set ?m. matched (w # ws) (offer_id r) (stock r)"
      using m(3) hd by (auto intro: matched_Cons)
    ultimately show ?thesis by blast
  qed
qed

lemma stocks_loop_total:
  "quantities_parse V ids \<Longrightarrow> \<exists>out rest. stocks_loop V acc ids = (Inr out, rest)"
proof (induction V arbitrary: acc ids)
  case Nil
  then show ?case by simp
next
  case (Cons w ws)
  have sub: "quantities_parse ws ids'" if "set ids' \<subseteq> set ids" for ids'
    using Cons.prems that by (auto simp: quantities_parse_def)
  show ?case
  proof (cases "py_str (kod w) \<in> set ids")
    case False
    then show ?thesis using Cons.IH[OF sub[of ids]] by simp
  next
    case True
    with Cons.prems obtain n where n: "stock_count (kolichestvo w) = Inr n"
      by (auto simp: quantities_parse_def)
    have "set (remove1 (py_str (kod w)) ids) \<subseteq> set ids" by (rule set_remove1_subset)
    from Cons.IH[OF sub[OF this]] show ?thesis using True n by simp
  qed
qed

lemma stocks_loop_rest:
  "stocks_loop V acc ids = (Inr out, rest) \<Longrightarrow> distinct ids \<Longrightarrow>
     rest = filter (\<lambda>i. i \<notin> codes V) ids"
proof (induction V arbitrary: acc ids)
  case Nil
  then show ?case by (simp add: codes_def)
next
  case (Cons w ws)
  let ?c = "py_str (kod w)"
  show ?case
  proof (cases "?c \<in> set ids")
    case False
    with Cons.prems have "stocks_loop ws acc ids = (Inr out, rest)" by simp
    from Cons.IH[OF this Cons.prems(2)] have "rest = filter (\<lambda>i. i \<notin> codes ws) ids" .
    also have "\<dots> = filter (\<lambda>i. i \<notin> codes (w # ws)) ids"
      using False by (intro filter_cong) (auto simp: codes_def)
    finally show ?thesis .
  next
    case True
    with Cons.prems obtain s where
      run: "stocks_loop ws (acc @ [\<lparr>offer_id = ?c, stock = s\<rparr>]) (remove1 ?c ids) = (Inr out, rest)"
      by (auto split: sum.splits)
    have "distinct (remove1 ?c ids)" using Cons.prems(2) by simp
    from Cons.IH[OF run this] have "rest = filter (\<lambda>i. i \<notin> codes ws) (remove1 ?c ids)" .
    also have "remove1 ?c ids = filter (\<lambda>i. i \<noteq> ?c) ids"
      using Cons.prems(2) by (simp add: distinct_remove1_removeAll removeAll_filter_not_eq) metis
    also have "filter (\<lambda>i. i \<notin> codes ws) (filter (\<lambda>i. i \<noteq> ?c) ids) = filter (\<lambda>i. i \<notin> codes (w # ws)) ids"
      by (auto simp: codes_def intro: filter_cong)
    finally show ?thesis .
  qed
qed

lemma prices_loop_no_match:
  "codes V \<inter> set ids = {} \<Longrightarrow> prices_loop V acc ids = (Inr acc, ids)"
  by (induction V arbitrary: acc) (auto simp: codes_def)

lemma market_stocks_loop_inv:
  "market_stocks_loop wh d V acc ids = (Inr out, rest) \<Longrightarrow>
     \<exists>m. out = acc @ m \<and> mset (map sku m) + mset rest = mset ids
        \<and> (\<forall>r\<in>set m. \<exists>n. r = market_entry wh d (sku r) n \<and> matched V (sku r) n)"
proof (induction V arbitrary: acc ids)
  case Nil
  then show ?case by simp
next
  case (Cons w ws)
  show ?case
  proof (cases "py_str (kod w) \<in> set ids")
    case False
    with Cons.prems have "market_stocks_loop wh d ws acc ids = (Inr out, rest)" by simp
    from Cons.IH[OF this] show ?thesis by (blast intro: matched_Cons)
  next
    case True
    let ?e = "\<lambda>s. market_entry wh d (py_str (kod w)) s"
    from True Cons.prems obtain s where s: "stock_count (kolichestvo w) = Inr s"
      and run: "market_stocks_loop wh d ws (acc @ [?e s]) (remove1 (py_str (kod w)) ids) = (Inr out, rest)"
      by (auto split: sum.splits)
    from Cons.IH[OF run] obtain m where m: "out = (acc @ [?e s]) @ m"
      "mset (map sku m) + mset rest = mset (remove1 (py_str (kod w)) ids)"
      "\<forall>r\<in>set m. \<exists>n. r = market_entry wh d (sku r) n \<and> matched ws (sku r) n" by blast
    have sk: "sku (?e s) = py_str (kod w)" by (simp add: market_entry_def)
    have hd: "matched (w # ws) (py_str (kod w)) s" using s by (simp add: matched_def)
    let ?m = "?e s # m"
    have "out = acc @ ?m" using m(1) by simp
    moreover have "mset (map sku ?m) + mset rest = mset ids"
      using m(2) True sk by simp
    moreover have "\<forall>r\<in>set ?m. \<exists>n. r = market_entry wh d (sku r) n \<and> matched (w # ws) (sku r) n"
    proof
      fix r assume "r \<in> set ?m"
      then consider "r = ?e s" | "r \<in> set m" by auto
      then show "\<exists>n. r = market_entry wh d (sku r) n \<and> matched (w # ws) (sku r) n"
      proof cases
        case 1
        then show ?thesis using hd sk by auto
      next
        case 2
        then show ?thesis using m(3) by (blast intro: matched_Cons)
      qed
    qed
    ultimately show ?thesis by blast
  qed
qed

lemma market_stocks_loop_total:
  "quantities_parse V ids \<Longrightarrow> \<exists>out rest. market_stocks_loop wh d V acc ids = (Inr out, rest)"
proof (induction V arbitrary: acc ids)
  case Nil
  then show ?case by simp
next
  case (Cons w ws)
  have sub: "quantities_parse ws ids'" if "set ids' \<subseteq> set ids" for ids'
    using Cons.prems that by (auto simp: quantities_parse_def)
  show ?case
  proof (cases "py_str (kod w) \<in> set ids")
    case False
    then show ?thesis using Cons.IH[OF sub[of ids]] by simp
  next
    case True
    with Cons.prems obtain n where n: "stock_count (kolichestvo w) = Inr n"
      by (auto simp: quantities_parse_def)
    have "set (remove1 (py_str (kod w)) ids) \<subseteq> set ids" by (rule set_remove1_subset)
    from Cons.IH[OF sub[OF this]] show ?thesis using True n by simp
  qed
qed

lemma market_stocks_loop_rest:
  "market_stocks_loop wh d V acc ids = (Inr out, rest) \<Longrightarrow> distinct ids \<Longrightarrow>
     rest = filter (\<lambda>i. i \<notin> codes V) ids"
proof (induction V arbitrary: acc ids)
  case Nil
  then show ?case by (simp add: codes_def)
next
  case (Cons w ws)
  let ?c = "py_str (kod w)"
  show ?case
  proof (cases "?c \<in> set ids")
    case False
    with Cons.prems have "market_stocks_loop wh d ws acc ids = (Inr out, rest)" by simp
    from Cons.IH[OF this Cons.prems(2)] have "rest = filter (\<lambda>i. i \<notin> codes ws) ids" .
    also have "\<dots> = filter (\<lambda>i. i \<notin> codes (w # ws)) ids"
      using False by (intro filter_cong) (auto simp: codes_def)
    finally show ?thesis .
  next
    case True
    with Cons.prems obtain s where
      run: "market_stocks_loop wh d ws (acc @ [market_entry wh d ?c s]) (remove1 ?c ids) = (Inr out, rest)"
      by (auto split: sum.splits)
    have "distinct (remove1 ?c ids)" using Cons.prems(2) by simp
    from Cons.IH[OF run this] have "rest = filter (\<lambda>i. i \<notin> codes ws) (remove1 ?c ids)" .
    also have "remove1 ?c ids = filter (\<lambda>i. i \<noteq> ?c) ids"
      using Cons.prems(2) by (simp add: distinct_remove1_removeAll removeAll_filter_not_eq) metis
    also have "filter (\<lambda>i. i \<notin> codes ws) (filter (\<lambda>i. i \<noteq> ?c) ids) = filter (\<lambda>i. i \<notin> codes (w # ws)) ids"
      by (auto simp: codes_def intro: filter_cong)
    finally show ?thesis .
  qed
qed

lemma once_of_mset:
  assumes "mset (map f xs) = mset ids" and "distinct ids" and "i \<in> set ids"
  shows "length (filter (\<lambda>r. f r = i) xs) = 1"
proof -
  have "count (mset (map f xs)) i = 1"
    using assms by (simp add: distinct_count_atmost_1)
  moreover have "count (mset (map f xs)) i = length (filter (\<lambda>r. f r = i) xs)"
    by (induction xs) auto
  ultimately show ?thesis by simp
qed

lemma seller_stocks_cover:
  assumes "quantities_parse V ids"
  shows "\<exists>stocks m rest. create_stocks V ids = (Inr stocks, rest)
           \<and> length stocks = length ids
           \<and> mset (map offer_id stocks) = mset ids
           \<and> (distinct ids \<longrightarrow> (\<forall>i\<in>set ids. length (filter (\<lambda>r. offer_id r = i) stocks) = 1))
           \<and> stocks = m @ map (\<lambda>i. \<lparr>offer_id = i, stock = 0\<rparr>) rest
           \<and> (\<forall>r\<in>set m. matched V (offer_id r) (stock r))
           \<and> (V = [] \<longrightarrow> m = [] \<and> rest = ids)
           \<and> (distinct ids \<and> set ids \<subseteq> codes V \<longrightarrow> rest = [])"
proof -
  from stocks_loop_total[OF assms] obtain out rest where run: "stocks_loop V [] ids = (Inr out, rest)"
    by blast
  from stocks_loop_inv[OF run] have ms: "mset (map offer_id out) + mset rest = mset ids"
    and mt: "\<forall>r\<in>set out. matched V (offer_id r) (stock r)" by auto
  let ?z = "map (\<lambda>i. \<lparr>offer_id = i, stock = 0\<rparr>) rest"
  have cs: "create_stocks V ids = (Inr (out @ ?z), rest)"
    using run by (simp add: create_stocks_def)
  have m3: "mset (map offer_id (out @ ?z)) = mset ids"
    using ms by (simp add: comp_def)
  have len: "length (out @ ?z) = length ids"
    using arg_cong[OF m3, of size] by simp
  have once: "distinct ids \<longrightarrow> (\<forall>i\<in>set ids. length (filter (\<lambda>r. offer_id r = i) (out @ ?z)) = 1)"
    using once_of_mset[OF m3] by blast
  have empty: "V = [] \<longrightarrow> out = [] \<and> rest = ids"
    using run by auto
  have full: "distinct ids \<and> set ids \<subseteq> codes V \<longrightarrow> rest = []"
  proof
    assume a: "distinct ids \<and> set ids \<subseteq> codes V"
    then have "rest = filter (\<lambda>i. i \<notin> codes V) ids" using stocks_loop_rest[OF run] by blast
    also have "\<dots> = []" using a by (auto simp: filter_empty_conv)
    finally show "rest = []" .
  qed
  show ?thesis
    using cs len m3 once mt empty full by blast
qed

lemma market_stocks_cover:
  assumes "quantities_parse V ids"
  shows "\<exists>stocks m rest. market_create_stocks d V ids wh = (Inr stocks, rest)
           \<and> length stocks = length ids
           \<and> mset (map sku stocks) = mset ids
           \<and> (distinct ids \<longrightarrow> (\<forall>i\<in>set ids. length (filter (\<lambda>r. sku r = i) stocks) = 1))
           \<and> stocks = m @ map (\<lambda>i. market_entry wh d i 0) rest
           \<and> (\<forall>r\<in>set m. \<exists>n. r = market_entry wh d (sku r) n \<and> matched V (sku r) n)
           \<and> (V = [] \<longrightarrow> m = [] \<and> rest = ids)
           \<and> (distinct ids \<and> set ids \<subseteq> codes V \<longrightarrow> rest = [])"
proof -
  from market_stocks_loop_total[OF assms] obtain out rest
    where run: "market_stocks_loop wh d V [] ids = (Inr out, rest)"
    by blast
  from market_stocks_loop_inv[OF run] have ms: "mset (map sku out) + mset rest = mset ids"
    and mt: "\<forall>r\<in>set out. \<exists>n. r = market_entry wh d (sku r) n \<and> matched V (sku r) n" by auto
  let ?z = "map (\<lambda>i. market_entry wh d i 0) rest"
  have cs: "market_create_stocks d V ids wh = (Inr (out @ ?z), rest)"
    using run by (simp add: market_create_stocks_def)
  have "map sku ?z = rest" by (simp add: comp_def market_entry_def)
  then have m3: "mset (map sku (out @ ?z)) = mset ids"
    using ms by simp
  have len: "length (out @ ?z) = length ids"
    using arg_cong[OF m3, of size] by simp
  have once: "distinct ids \<longrightarrow> (\<forall>i\<in>set ids. length (filter (\<lambda>r. sku r = i) (out @ ?z)) = 1)"
    using once_of_mset[OF m3] by blast
  have empty: "V = [] \<longrightarrow> out = [] \<and> rest = ids"
    using run by auto
  have full: "distinct ids \<and> set ids \<subseteq> codes V \<longrightarrow> rest = []"
  proof
    assume a: "distinct ids \<and> set ids \<subseteq> codes V"
    then have "rest = filter (\<lambda>i. i \<notin> codes V) ids" using market_stocks_loop_rest[OF run] by blast
    also have "\<dots> = []" using a by (auto simp: filter_empty_conv)
    finally show "rest = []" .
  qed
  show ?thesis
    using cs len m3 once mt empty full by blast
qed

text \<open>
  Claim C1, as the code has it. When the quantities of the matching rows are accepted,
  \<^verbatim>\<open>create_stocks\<close> (both variants) returns as many records as there are identifiers,
  and every identifier is the \<^verbatim>\<open>offer_id\<close> (\<^verbatim>\<open>sku\<close>) of as many records as it has
  occurrences in the list: of exactly one when the list has no duplicates. The records
  are the matched ones, in the order of the feed, followed by a zero-stock record for
  each identifier left in the list. An empty feed gives only zero-stock records; a
  duplicate-free list whose identifiers all have a row leaves nothing for the second loop.
\<close>

theorem create_stocks_covers_offer_ids:
  assumes "quantities_parse V ids"
  shows "(\<exists>stocks m rest. create_stocks V ids = (Inr stocks, rest)
           \<and> length stocks = length ids
           \<and> mset (map offer_id stocks) = mset ids
           \<and> (distinct ids \<longrightarrow> (\<forall>i\<in>set ids. length (filter (\<lambda>r. offer_id r = i) stocks) = 1))
           \<and> stocks = m @ map (\<lambda>i. \<lparr>offer_id = i, stock = 0\<rparr>) rest
           \<and> (\<forall>r\<in>set m. matched V (offer_id r) (stock r))
           \<and> (V = [] \<longrightarrow> m = [] \<and> rest = ids)
           \<and> (distinct ids \<and> set ids \<subseteq> codes V \<longrightarrow> rest = []))
       \<and> (\<exists>stocks m rest. market_create_stocks d V ids wh = (Inr stocks, rest)
           \<and> length stocks = length ids
           \<and> mset (map sku stocks) = mset ids
           \<and> (distinct ids \<longrightarrow> (\<forall>i\<in>set ids. length (filter (\<lambda>r. sku r = i) stocks) = 1))
           \<and> stocks = m @ map (\<lambda>i. market_entry wh d i 0) rest
           \<and> (\<forall>r\<in>set m. \<exists>n. r = market_entry wh d (sku r) n \<and> matched V (sku r) n)
           \<and> (V = [] \<longrightarrow> m = [] \<and> rest = ids)
           \<and> (distinct ids \<and> set ids \<subseteq> codes V \<longrightarrow> rest = []))"
  using seller_stocks_cover[OF assms] market_stocks_cover[OF assms] by (rule conjI)

theorem create_stocks_covers_offer_ids_witness:
  "quantities_parse [\<lparr>kod = PStr ''A1'', kolichestvo = PStr ''>10'', tsena = PStr ''100.00 x''\<rparr>,
      \<lparr>kod = PStr ''A2'', kolichestvo = PInt 7, tsena = PStr ''50.00 x''\<rparr>] [''A1'', ''A2'', ''A3'']
   \<and> (\<exists>stocks rest. create_stocks [\<lparr>kod = PStr ''A1'', kolichestvo = PStr ''>10'', tsena = PStr ''100.00 x''\<rparr>,
      \<lparr>kod = PStr ''A2'', kolichestvo = PInt 7, tsena = PStr ''50.00 x''\<rparr>] [''A1'', ''A2'', ''A3''] = (Inr stocks, rest)
         \<and> length stocks = 3 \<and> mset (map offer_id stocks) = mset [''A1'', ''A2'', ''A3''])"
proof -
  let ?V = "[\<lparr>kod = PStr ''A1'', kolichestvo = PStr ''>10'', tsena = PStr ''100.00 x''\<rparr>,
      \<lparr>kod = PStr ''A2'', kolichestvo = PInt 7, tsena = PStr ''50.00 x''\<rparr>]"
  let ?ids = "[''A1'', ''A2'', ''A3'']"
  have s1: "stock_count (PStr ''>10'') = Inr 100" by (simp add: stock_count_def)
  have s2: "stock_count (PInt 7) = Inr 7"
    by code_simp
  have q: "quantities_parse ?V ?ids"
    unfolding quantities_parse_def using s1 s2 by simp
  from create_stocks_covers_offer_ids[OF q, of "''d''" "''w''"]
  have "\<exists>stocks m rest. create_stocks ?V ?ids = (Inr stocks, rest)
           \<and> length stocks = length ?ids
           \<and> mset (map offer_id stocks) = mset ?ids
           \<and> (distinct ?ids \<longrightarrow> (\<forall>i\<in>set ?ids. length (filter (\<lambda>r. offer_id r = i) stocks) = 1))
           \<and> stocks = m @ map (\<lambda>i. \<lparr>offer_id = i, stock = 0\<rparr>) rest
           \<and> (\<forall>r\<in>set m. matched ?V (offer_id r) (stock r))
           \<and> (?V = [] \<longrightarrow> m = [] \<and> rest = ?ids)
           \<and> (distinct ?ids \<and> set ?ids \<subseteq> codes ?V \<longrightarrow> rest = [])"
    by (rule conjunct1)
  then obtain stocks rest where a: "create_stocks ?V ?ids = (Inr stocks, rest)"
    and b: "length stocks = length ?ids" and c: "mset (map offer_id stocks) = mset ?ids"
    by (elim exE conjE)
  from b have b': "length stocks = 3" by simp
  from a b' c have "\<exists>stocks rest. create_stocks ?V ?ids = (Inr stocks, rest)
         \<and> length stocks = 3 \<and> mset (map offer_id stocks) = mset ?ids"
    by (intro exI conjI)
  with q show ?thesis by (rule conjI)
qed

text \<open>
  The claim as stated fails on a list with a repeated identifier: both occurrences get a
  record. It also fails to return when a matching row has a quantity \<^verbatim>\<open>int\<close> rejects.
\<close>

theorem create_stocks_duplicates_counterexample:
  "create_stocks [] [''A'', ''A''] = (Inr [\<lparr>offer_id = ''A'', stock = 0\<rparr>, \<lparr>offer_id = ''A'', stock = 0\<rparr>], [''A'', ''A''])
   \<and> length (filter (\<lambda>r. offer_id r = ''A'') [\<lparr>offer_id = ''A'', stock = 0\<rparr>, \<lparr>offer_id = ''A'', stock = 0\<rparr>]) = 2
   \<and> create_stocks [\<lparr>kod = PStr ''A'', kolichestvo = PStr [], tsena = PStr ''1.00''\<rparr>] [''A''] = (Inl ValueError, [''A''])"
proof -
  have s: "stock_count (PStr []) = Inl ValueError" by code_simp
  show ?thesis by (simp add: create_stocks_def s)
qed

section \<open>Quantities and prices\<close>

text \<open>
  Claim C2. The quantity rule of \<^verbatim>\<open>create_stocks\<close> turns the text \<^verbatim>\<open>">10"\<close> into 100,
  the text \<^verbatim>\<open>"1"\<close> and the integer 1 into 0, and the text \<^verbatim>\<open>"7"\<close> into 7; any cell
  whose text is neither \<^verbatim>\<open>">10"\<close> nor \<^verbatim>\<open>"1"\<close> gets what \<^verbatim>\<open>int\<close> makes of it: an integer
  other than 1 is itself, \<^verbatim>\<open>None\<close> is a \<^verbatim>\<open>TypeError\<close>, and a text made of blanks, an
  optional sign, decimal digits and blanks again is the number its digits denote, with
  the sign, or a \<^verbatim>\<open>ValueError\<close> when it has more digits than the limit. An underscore between digits and a decimal digit of
  another script are read, a text with a character that \<^verbatim>\<open>int\<close> does not skip, the empty
  text and a text of letters are a \<^verbatim>\<open>ValueError\<close>. In both variants the record emitted for
  a matching row carries that count.
\<close>

theorem quantity_normalisation:
  "stock_count (PStr ''>10'') = Inr 100
   \<and> stock_count (PStr ''1'') = Inr 0
   \<and> stock_count (PInt 1) = Inr 0
   \<and> stock_count (PStr ''7'') = Inr 7
   \<and> (py_str q \<noteq> ''>10'' \<and> py_str q \<noteq> ''1'' \<longrightarrow> stock_count q = py_int q)
   \<and> (i \<noteq> 1 \<longrightarrow> stock_count (PInt i) = Inr i)
   \<and> stock_count PNone = Inl TypeError
   \<and> (list_all is_space pre \<and> list_all is_space post \<and> sg \<in> {[], ''+'', ''-''}
        \<and> ds \<noteq> [] \<and> list_all is_digit ds
        \<and> pre @ sg @ ds @ post \<noteq> ''1'' \<longrightarrow>
        stock_count (PStr (pre @ sg @ ds @ post))
          = (if max_str_digits < length ds then Inl ValueError
             else Inr ((if sg = ''-'' then - 1 else 1) * int (decimal_value ds))))
   \<and> stock_count (PStr ''1_000'') = Inr 1000
   \<and> stock_count (PStr [CHR 0xD9, CHR 0xA7]) = Inr 7
   \<and> stock_count (PStr [CHR 0x1C, CHR ''7'']) = Inl ValueError
   \<and> stock_count (PStr []) = Inl ValueError
   \<and> stock_count (PStr ''abc'') = Inl ValueError
   \<and> (py_str (kod w) \<in> set ids \<and> stock_count (kolichestvo w) = Inr n \<longrightarrow>
        fst (create_stocks [w] ids)
          = Inr (\<lparr>offer_id = py_str (kod w), stock = n\<rparr>
                 # map (\<lambda>i. \<lparr>offer_id = i, stock = 0\<rparr>) (remove1 (py_str (kod w)) ids))
        \<and> fst (market_create_stocks date [w] ids warehouse_id)
          = Inr (market_entry warehouse_id date (py_str (kod w)) n
                 # map (\<lambda>i. market_entry warehouse_id date i 0) (remove1 (py_str (kod w)) ids)))"
proof -
  have a: "stock_count (PStr ''>10'') = Inr 100" by (simp add: stock_count_def)
  have b: "stock_count (PStr ''1'') = Inr 0" by (simp add: stock_count_def)
  have b': "stock_count (PInt 1) = Inr 0" by (simp add: stock_count_int)
  have c: "stock_count (PStr ''7'') = Inr 7" by code_simp
  have d: "py_str q \<noteq> ''>10'' \<and> py_str q \<noteq> ''1'' \<longrightarrow> stock_count q = py_int q"
    by (simp add: stock_count_def)
  have d': "i \<noteq> 1 \<longrightarrow> stock_count (PInt i) = Inr i" by (simp add: stock_count_int)
  have d'': "stock_count PNone = Inl TypeError" by (simp add: stock_count_def)
  have g: "list_all is_space pre \<and> list_all is_space post \<and> sg \<in> {[], ''+'', ''-''}
        \<and> ds \<noteq> [] \<and> list_all is_digit ds
        \<and> pre @ sg @ ds @ post \<noteq> ''1'' \<longrightarrow>
        stock_count (PStr (pre @ sg @ ds @ post))
          = (if max_str_digits < length ds then Inl ValueError
             else Inr ((if sg = ''-'' then - 1 else 1) * int (decimal_value ds)))"
  proof
    assume h: "list_all is_space pre \<and> list_all is_space post \<and> sg \<in> {[], ''+'', ''-''}
        \<and> ds \<noteq> [] \<and> list_all is_digit ds
        \<and> pre @ sg @ ds @ post \<noteq> ''1''"
    let ?t = "pre @ sg @ ds @ post"
    from h obtain c cs where ds: "ds = c # cs" and c: "is_digit c" by (cases ds) auto
    have "hd ?t \<noteq> CHR ''>''"
    proof (cases pre)
      case (Cons p ps)
      with h have "is_space p" by simp
      then show ?thesis using Cons by (auto simp: is_space_def Let_def)
    next
      case Nil
      show ?thesis
      proof (cases "sg = []")
        case True
        then show ?thesis using Nil ds c is_digit_not_sign by auto
      next
        case False
        then show ?thesis using Nil h by auto
      qed
    qed
    moreover have "?t \<noteq> []" using ds by simp
    ultimately have ne: "?t \<noteq> ''>10''" by auto
    have "int_of_string ?t
            = (if max_str_digits < length ds then Inl ValueError
               else Inr ((if sg = ''-'' then - 1 else 1) * int (decimal_value ds)))"
      using h by (intro int_of_string_plain) simp_all
    then show "stock_count (PStr ?t)
            = (if max_str_digits < length ds then Inl ValueError
               else Inr ((if sg = ''-'' then - 1 else 1) * int (decimal_value ds)))"
      using ne h by (simp add: stock_count_def)
  qed
  have x1: "stock_count (PStr ''1_000'') = Inr 1000" by code_simp
  have u2: "unicode_todecimal 0x667 = Some 7"
    by (simp add: unicode_todecimal_def decimal_zeros_def)
  have u3: "digit_char 7 = CHR ''7''" by code_simp
  have u4: "to_ascii [CHR 0xD9, CHR 0xA7] = ''7''"
    by (simp add: to_ascii_def is_cont_def unicode_isspace_def u2 u3)
  have u5: "to_ascii ''7'' = ''7''" by (simp add: to_ascii_def)
  have u6: "int_of_string ''7'' = Inr 7" by code_simp
  have "int_of_string [CHR 0xD9, CHR 0xA7] = int_of_string ''7''"
    by (simp only: int_of_string_def u4 u5)
  then have x2: "stock_count (PStr [CHR 0xD9, CHR 0xA7]) = Inr 7"
    by (simp add: stock_count_def u6)
  have x3: "stock_count (PStr [CHR 0x1C, CHR ''7'']) = Inl ValueError" by code_simp
  have x4: "stock_count (PStr []) = Inl ValueError" by code_simp
  have x5: "stock_count (PStr ''abc'') = Inl ValueError" by code_simp
  have e: "py_str (kod w) \<in> set ids \<and> stock_count (kolichestvo w) = Inr n \<longrightarrow>
        fst (create_stocks [w] ids)
          = Inr (\<lparr>offer_id = py_str (kod w), stock = n\<rparr>
                 # map (\<lambda>i. \<lparr>offer_id = i, stock = 0\<rparr>) (remove1 (py_str (kod w)) ids))
        \<and> fst (market_create_stocks date [w] ids warehouse_id)
          = Inr (market_entry warehouse_id date (py_str (kod w)) n
                 # map (\<lambda>i. market_entry warehouse_id date i 0) (remove1 (py_str (kod w)) ids))"
    by (simp add: create_stocks_def market_create_stocks_def)
  from a b b' c d d' d'' g x1 x2 x3 x4 x5 e show ?thesis by (intro conjI)
qed

theorem quantity_normalisation_witness:
  "py_str (PInt 7) \<noteq> ''>10'' \<and> py_str (PInt 7) \<noteq> ''1'' \<and> stock_count (PInt 7) = Inr 7
   \<and> (75::int) \<noteq> 1 \<and> stock_count (PInt 75) = Inr 75
   \<and> list_all is_space '' '' \<and> list_all is_space [CHR 0x0A] \<and> \<not> max_str_digits < length ''75''
   \<and> list_all is_digit ''75''
   \<and> stock_count (PStr ('' '' @ ''-'' @ ''75'' @ [CHR 0x0A])) = Inr (- 75)
   \<and> fst (create_stocks [\<lparr>kod = PStr ''A'', kolichestvo = PStr ''>10'', tsena = PNone\<rparr>] [''B'', ''A''])
       = Inr [\<lparr>offer_id = ''A'', stock = 100\<rparr>, \<lparr>offer_id = ''B'', stock = 0\<rparr>]"
proof -
  let ?w = "\<lparr>kod = PStr ''A'', kolichestvo = PStr ''>10'', tsena = PNone\<rparr>"
  have p: "py_str (PInt 7) \<noteq> ''>10'' \<and> py_str (PInt 7) \<noteq> ''1''" by code_simp
  have i: "py_str (kod ?w) \<in> set [''B'', ''A''] \<and> stock_count (kolichestvo ?w) = Inr 100"
    by (simp add: stock_count_def)
  have n1: "(75::int) \<noteq> 1" by simp
  have h1: "list_all is_space '' ''" by (simp add: is_space_def)
  have h2: "list_all is_space [CHR 0x0A]" by (simp add: is_space_def)
  have h3: "\<not> max_str_digits < length ''75''" by (simp add: max_str_digits_def)
  have h4: "list_all is_digit ''75''" by (simp add: is_digit_def)
  have h5: "''-'' \<in> {[], ''+'', ''-''}" by simp
  have h6: "''75'' \<noteq> []" by simp
  have h7: "'' '' @ ''-'' @ ''75'' @ [CHR 0x0A] \<noteq> ''1''" by simp
  have dv: "decimal_value ''75'' = 75"
    by (simp add: decimal_value_def digit_val_def lessThan_Suc)
  note t = quantity_normalisation
    [of "PInt 7" 75 "'' ''" "[CHR 0x0A]" "''-''" "''75''" ?w "[''B'', ''A'']" 100 "''d''" "''wh''"]
  from t p have "stock_count (PInt 7) = py_int (PInt 7)" by blast
  then have s: "stock_count (PInt 7) = Inr 7" by simp
  from t n1 have s2: "stock_count (PInt 75) = Inr 75" by blast
  from t h1 h2 h4 h5 h6 h7
  have "stock_count (PStr ('' '' @ ''-'' @ ''75'' @ [CHR 0x0A]))
          = (if max_str_digits < length ''75'' then Inl ValueError
             else Inr ((if ''-'' = ''-'' then - 1 else 1) * int (decimal_value ''75'')))"
    by blast
  then have s3: "stock_count (PStr ('' '' @ ''-'' @ ''75'' @ [CHR 0x0A])) = Inr (- 75)"
    using h3 by (simp add: dv)
  from t i have "fst (create_stocks [?w] [''B'', ''A''])
          = Inr (\<lparr>offer_id = py_str (kod ?w), stock = 100\<rparr>
                 # map (\<lambda>i. \<lparr>offer_id = i, stock = 0\<rparr>) (remove1 (py_str (kod ?w)) [''B'', ''A'']))"
    by blast
  then have r: "fst (create_stocks [?w] [''B'', ''A''])
       = Inr [\<lparr>offer_id = ''A'', stock = 100\<rparr>, \<lparr>offer_id = ''B'', stock = 0\<rparr>]" by simp
  from p s n1 s2 h1 h2 h3 h4 s3 r show ?thesis by (intro conjI) simp_all
qed

lemma split_on_takeWhile:
  "\<exists>ps. split_on sep s = takeWhile (\<lambda>c. c \<noteq> sep) s # ps"
  by (induction s) auto

lemma takeWhile_no_sep: "sep \<notin> set s \<Longrightarrow> takeWhile (\<lambda>c. c \<noteq> sep) s = s"
  by (induction s) auto

lemma takeWhile_upto_sep: "sep \<notin> set a \<Longrightarrow> takeWhile (\<lambda>c. c \<noteq> sep) (a @ sep # b) = a"
  by (induction a) auto

lemma price_conversion_text:
  "price_conversion (PStr s) = Inr (filter is_digit (takeWhile (\<lambda>c. c \<noteq> CHR ''.'') s))"
proof -
  obtain ps where "split_on (CHR ''.'') s = takeWhile (\<lambda>c. c \<noteq> CHR ''.'') s # ps"
    using split_on_takeWhile by blast
  then show ?thesis
    by (simp add: price_conversion_def re_sub_non_digits_def)
qed

text \<open>
  Claim C3. On a text \<open>a.b\<close> whose part \<open>a\<close> has no period, \<^verbatim>\<open>price_conversion\<close>
  returns the digits of \<open>a\<close>, in order, and nothing else: the text is cut at its first
  period and every character that is not a digit is dropped. The price
  \<^verbatim>\<open>5'990.00\<close> followed by a blank and the Cyrillic abbreviation of the rouble with
  its period (given by its UTF-8 bytes) becomes \<^verbatim>\<open>5990\<close>.
\<close>

theorem price_conversion_prefix:
  assumes "CHR ''.'' \<notin> set a"
  shows "price_conversion (PStr (a @ ''.'' @ b)) = Inr (filter is_digit a)
         \<and> list_all is_digit (filter is_digit a)
         \<and> price_conversion
              (PStr (''5'990.00 '' @ [CHR 0xD1, CHR 0x80, CHR 0xD1, CHR 0x83, CHR 0xD0, CHR 0xB1] @ ''.''))
            = Inr ''5990''"
proof -
  have "takeWhile (\<lambda>c. c \<noteq> CHR ''.'') (a @ ''.'' @ b) = a"
    using assms by (simp add: takeWhile_upto_sep)
  then have 1: "price_conversion (PStr (a @ ''.'' @ b)) = Inr (filter is_digit a)"
    by (simp add: price_conversion_text)
  have 2: "list_all is_digit (filter is_digit a)"
    by (simp add: list_all_iff)
  have 3: "price_conversion
              (PStr (''5'990.00 '' @ [CHR 0xD1, CHR 0x80, CHR 0xD1, CHR 0x83, CHR 0xD0, CHR 0xB1] @ ''.''))
            = Inr ''5990''"
    by code_simp
  from 1 2 3 show ?thesis by (intro conjI)
qed

theorem price_conversion_prefix_witness:
  "CHR ''.'' \<notin> set ''1 234''
   \<and> price_conversion (PStr (''1 234'' @ ''.'' @ ''50 x'')) = Inr ''1234''"
proof -
  have h: "CHR ''.'' \<notin> set ''1 234''" by simp
  have "filter is_digit ''1 234'' = ''1234''" by code_simp
  with price_conversion_prefix [OF h, of "''50 x''"]
  have "price_conversion (PStr (''1 234'' @ ''.'' @ ''50 x'')) = Inr ''1234''" by simp
  with h show ?thesis by (rule conjI)
qed

text \<open>
  Claim C4 as stated fails: a text without a period is not an error, \<^verbatim>\<open>split\<close> returns
  the whole text as its only piece.
\<close>

theorem price_conversion_no_period_counterexample:
  "CHR ''.'' \<notin> set ''5990'' \<and> price_conversion (PStr ''5990'') = Inr ''5990''"
proof -
  have "price_conversion (PStr ''5990'') = Inr ''5990''" by code_simp
  then show ?thesis by simp
qed

text \<open>
  Claim C4, amended. \<^verbatim>\<open>price_conversion\<close> fails exactly on the values that are not
  texts (\<^verbatim>\<open>AttributeError\<close>); it returns on every text, and on a text with no period
  it returns the digits of the whole text.
\<close>

theorem price_conversion_failure:
  "price_conversion (PInt i) = Inl AttributeError
   \<and> price_conversion PNone = Inl AttributeError
   \<and> (\<exists>r. price_conversion (PStr s) = Inr r)
   \<and> (CHR ''.'' \<notin> set s \<longrightarrow> price_conversion (PStr s) = Inr (filter is_digit s))"
proof -
  have 1: "price_conversion (PInt i) = Inl AttributeError" by (simp add: price_conversion_def)
  have 2: "price_conversion PNone = Inl AttributeError" by (simp add: price_conversion_def)
  have 3: "\<exists>r. price_conversion (PStr s) = Inr r" by (simp add: price_conversion_text)
  have 4: "CHR ''.'' \<notin> set s \<longrightarrow> price_conversion (PStr s) = Inr (filter is_digit s)"
    by (simp add: price_conversion_text takeWhile_no_sep)
  from 1 2 3 4 show ?thesis by (intro conjI)
qed

theorem price_conversion_failure_witness:
  "price_conversion (PInt 5990) = Inl AttributeError
   \<and> CHR ''.'' \<notin> set ''5 990 x'' \<and> price_conversion (PStr ''5 990 x'') = Inr ''5990''"
proof -
  have h: "CHR ''.'' \<notin> set ''5 990 x''" by simp
  have f: "filter is_digit ''5 990 x'' = ''5990''" by code_simp
  note t = price_conversion_failure [of 5990 "''5 990 x''"]
  from t have 1: "price_conversion (PInt 5990) = Inl AttributeError" by (elim conjE)
  from t h have "price_conversion (PStr ''5 990 x'') = Inr (filter is_digit ''5 990 x'')"
    by blast
  with f have 2: "price_conversion (PStr ''5 990 x'') = Inr ''5990''" by simp
  from 1 h 2 show ?thesis by (intro conjI)
qed

section \<open>Stocks and prices together\<close>

text \<open>
  Claim C8. The scenario of the specification, each call on its own copy of the
  identifier list: the stock records are A1 with 100, A2 with 0 and A3 with 0, in this
  order, and the price records are those of A1 (\<^verbatim>\<open>"100"\<close>) and A2 (\<^verbatim>\<open>"50"\<close>) only.
\<close>

theorem end_to_end_scenario:
  "fst (create_stocks
     [\<lparr>kod = PStr ''A1'', kolichestvo = PStr ''>10'', tsena = PStr ''100.00 x''\<rparr>,
      \<lparr>kod = PStr ''A2'', kolichestvo = PStr ''1'', tsena = PStr ''50.00 x''\<rparr>]
     [''A1'', ''A2'', ''A3''])
   = Inr [\<lparr>offer_id = ''A1'', stock = 100\<rparr>, \<lparr>offer_id = ''A2'', stock = 0\<rparr>,
          \<lparr>offer_id = ''A3'', stock = 0\<rparr>]
   \<and> fst (create_prices
     [\<lparr>kod = PStr ''A1'', kolichestvo = PStr ''>10'', tsena = PStr ''100.00 x''\<rparr>,
      \<lparr>kod = PStr ''A2'', kolichestvo = PStr ''1'', tsena = PStr ''50.00 x''\<rparr>]
     [''A1'', ''A2'', ''A3''])
   = Inr [\<lparr>auto_action_enabled = ''UNKNOWN'', currency_code = ''RUB'', price_offer_id = ''A1'',
            old_price = ''0'', price = ''100''\<rparr>,
          \<lparr>auto_action_enabled = ''UNKNOWN'', currency_code = ''RUB'', price_offer_id = ''A2'',
            old_price = ''0'', price = ''50''\<rparr>]"
proof -
  have p1: "price_conversion (PStr ''100.00 x'') = Inr ''100''" by code_simp
  have p2: "price_conversion (PStr ''50.00 x'') = Inr ''50''" by code_simp
  have s1: "stock_count (PStr ''>10'') = Inr 100" by (simp add: stock_count_def)
  have s2: "stock_count (PStr ''1'') = Inr 0" by (simp add: stock_count_def)
  show ?thesis
    by (simp add: create_stocks_def create_prices_def p1 p2 s1 s2)
qed

text \<open>
  Claim C9. \<^verbatim>\<open>main\<close> of \<^verbatim>\<open>seller.py\<close> passes to \<^verbatim>\<open>create_prices\<close> the list that
  \<^verbatim>\<open>create_stocks\<close> has just emptied of every identifier with a row in the feed. When
  the list had no duplicates, what is left is the list without the codes of the feed,
  and \<^verbatim>\<open>create_prices\<close> on it returns no price at all.
\<close>

theorem drained_list_gives_no_prices:
  assumes "distinct ids" and "create_stocks V ids = (Inr stocks, rest)"
  shows "rest = filter (\<lambda>i. i \<notin> codes V) ids \<and> create_prices V rest = (Inr [], rest)"
proof -
  from assms(2) obtain out where run: "stocks_loop V [] ids = (Inr out, rest)"
    by (auto simp: create_stocks_def split: prod.splits sum.splits)
  from stocks_loop_rest[OF run assms(1)] have r: "rest = filter (\<lambda>i. i \<notin> codes V) ids" .
  then have "codes V \<inter> set rest = {}" by auto
  then show ?thesis using r by (simp add: create_prices_def prices_loop_no_match)
qed

theorem drained_list_gives_no_prices_witness:
  "distinct [''A1'', ''A2'', ''A3'']
   \<and> create_stocks
        [\<lparr>kod = PStr ''A1'', kolichestvo = PStr ''>10'', tsena = PStr ''100.00 x''\<rparr>,
         \<lparr>kod = PStr ''A2'', kolichestvo = PStr ''1'', tsena = PStr ''50.00 x''\<rparr>]
        [''A1'', ''A2'', ''A3'']
      = (Inr [\<lparr>offer_id = ''A1'', stock = 100\<rparr>, \<lparr>offer_id = ''A2'', stock = 0\<rparr>,
              \<lparr>offer_id = ''A3'', stock = 0\<rparr>], [''A3''])
   \<and> create_prices
        [\<lparr>kod = PStr ''A1'', kolichestvo = PStr ''>10'', tsena = PStr ''100.00 x''\<rparr>,
         \<lparr>kod = PStr ''A2'', kolichestvo = PStr ''1'', tsena = PStr ''50.00 x''\<rparr>]
        [''A3'']
      = (Inr [], [''A3''])"
proof -
  let ?V = "[\<lparr>kod = PStr ''A1'', kolichestvo = PStr ''>10'', tsena = PStr ''100.00 x''\<rparr>,
             \<lparr>kod = PStr ''A2'', kolichestvo = PStr ''1'', tsena = PStr ''50.00 x''\<rparr>]"
  have d: "distinct [''A1'', ''A2'', ''A3'']" by simp
  have s1: "stock_count (PStr ''>10'') = Inr 100" by (simp add: stock_count_def)
  have s2: "stock_count (PStr ''1'') = Inr 0" by (simp add: stock_count_def)
  have c: "create_stocks ?V [''A1'', ''A2'', ''A3'']
      = (Inr [\<lparr>offer_id = ''A1'', stock = 100\<rparr>, \<lparr>offer_id = ''A2'', stock = 0\<rparr>,
              \<lparr>offer_id = ''A3'', stock = 0\<rparr>], [''A3''])"
    by (simp add: create_stocks_def s1 s2)
  from drained_list_gives_no_prices [OF d c]
  have "create_prices ?V [''A3''] = (Inr [], [''A3''])" by (rule conjunct2)
  with d c show ?thesis by (intro conjI)
qed

lemma prices_loop_frame: "snd (prices_loop V acc ids) = ids"
  by (induction V arbitrary: acc) (auto split: sum.splits)

lemma market_prices_loop_frame: "snd (market_prices_loop V acc ids) = ids"
  by (induction V arbitrary: acc) (auto split: sum.splits)

text \<open>
  Claim C10. \<^verbatim>\<open>create_prices\<close>, in both variants, leaves the caller's list of
  identifiers as it was, whether it returns or raises; \<^verbatim>\<open>create_stocks\<close> does not: on
  the feed with the one row A and the list A, B it leaves the list B.
\<close>

theorem create_prices_frame:
  "snd (create_prices V ids) = ids
   \<and> snd (market_create_prices V ids) = ids
   \<and> snd (create_stocks [\<lparr>kod = PStr ''A'', kolichestvo = PStr ''5'', tsena = PNone\<rparr>] [''A'', ''B''])
       = [''B'']
   \<and> snd (market_create_stocks date [\<lparr>kod = PStr ''A'', kolichestvo = PStr ''5'', tsena = PNone\<rparr>]
            [''A'', ''B''] warehouse_id)
       = [''B'']"
proof -
  have s: "stock_count (PStr ''5'') = Inr 5" by code_simp
  show ?thesis
    by (simp add: create_prices_def market_create_prices_def prices_loop_frame
        market_prices_loop_frame create_stocks_def market_create_stocks_def s)
qed

section \<open>Batches: \<^verbatim>\<open>divide\<close>\<close>

lemma slice_chunk:
  assumes "0 \<le> i" and "i \<le> int (length lst)" and "0 < n"
  shows "py_slice lst i (i + n) = take (nat n) (drop (nat i) lst)"
proof -
  have lo: "slice_index (int (length lst)) i = nat i"
    using assms by (simp add: slice_index_def)
  have hi: "slice_index (int (length lst)) (i + n) = nat (min (int (length lst)) (i + n))"
    using assms by (simp add: slice_index_def)
  show ?thesis
  proof (cases "i + n \<le> int (length lst)")
    case True
    then have "nat (min (int (length lst)) (i + n)) - nat i = nat n"
      using assms by (simp add: min_def nat_diff_distrib')
    then show ?thesis by (simp add: py_slice_def lo hi Let_def)
  next
    case False
    then have m: "nat (min (int (length lst)) (i + n)) - nat i = length lst - nat i"
      by (simp add: min_def)
    have "length (drop (nat i) lst) \<le> nat n" using False assms by simp
    then have "take (nat n) (drop (nat i) lst) = drop (nat i) lst" by simp
    then show ?thesis by (simp add: py_slice_def lo hi Let_def m)
  qed
qed

lemma range_from_step:
  "0 < step \<Longrightarrow> i < stop \<Longrightarrow> range_from i stop step = i # range_from (i + step) stop step"
  by (subst range_from.simps) simp

lemma range_from_done:
  "0 < step \<Longrightarrow> \<not> i < stop \<Longrightarrow> range_from i stop step = []"
  by (subst range_from.simps) simp

lemma take_drop_next:
  assumes "0 \<le> i" and "0 < step"
  shows "take (nat step) (drop (nat i) lst) @ drop (nat (i + step)) lst = drop (nat i) lst"
proof -
  have "nat (i + step) = nat step + nat i" using assms by (simp add: nat_add_distrib)
  then have "drop (nat (i + step)) lst = drop (nat step) (drop (nat i) lst)" by simp
  then show ?thesis by (simp only: append_take_drop_id)
qed

lemma concat_chunks_from:
  "0 < step \<Longrightarrow> 0 \<le> i \<Longrightarrow> stop = int (length lst) \<Longrightarrow>
     concat (map (\<lambda>j. py_slice lst j (j + step)) (range_from i stop step)) = drop (nat i) lst"
proof (induction i stop step rule: range_from.induct)
  case (1 i stop step)
  show ?case
  proof (cases "i < stop")
    case True
    have r: "range_from i stop step = i # range_from (i + step) stop step"
      using True "1.prems" by (simp add: range_from_step)
    have ih: "concat (map (\<lambda>j. py_slice lst j (j + step)) (range_from (i + step) stop step))
                = drop (nat (i + step)) lst"
      using "1.IH"(1) True "1.prems" by simp
    have sl: "py_slice lst i (i + step) = take (nat step) (drop (nat i) lst)"
      using slice_chunk[of i lst step] True "1.prems" by simp
    have "concat (map (\<lambda>j. py_slice lst j (j + step)) (range_from i stop step))
            = take (nat step) (drop (nat i) lst) @ drop (nat (i + step)) lst"
      by (simp only: r list.map concat.simps ih sl)
    also have "\<dots> = drop (nat i) lst"
      by (rule take_drop_next[OF "1.prems"(2) "1.prems"(1)])
    finally show ?thesis .
  next
    case False
    have r: "range_from i stop step = []"
      using False "1.prems" by (simp add: range_from_done)
    have "length lst \<le> nat i" using False "1.prems" by simp
    then show ?thesis using r by simp
  qed
qed

lemma length_range_from:
  "0 < step \<Longrightarrow> int (length (range_from i stop step)) = (if i < stop then - ((i - stop) div step) else 0)"
proof (induction i stop step rule: range_from.induct)
  case (1 i stop step)
  show ?case
  proof (cases "i < stop")
    case True
    have r: "range_from i stop step = i # range_from (i + step) stop step"
      using True "1.prems" by (simp add: range_from_step)
    have ih: "int (length (range_from (i + step) stop step))
                = (if i + step < stop then - ((i + step - stop) div step) else 0)"
      using "1.IH"(1) True "1.prems" by simp
    have shift: "(i + step - stop) div step = (i - stop) div step + 1"
    proof -
      have "i + step - stop = (i - stop) + step" by simp
      then show ?thesis using "1.prems" by (simp only: div_add_self2)
    qed
    show ?thesis
    proof (cases "i + step < stop")
      case True
      then show ?thesis using r ih shift \<open>i < stop\<close> by simp
    next
      case False
      then have "0 \<le> (i + step - stop) div step"
        using "1.prems" by (simp add: pos_imp_zdiv_nonneg_iff)
      moreover have "(i - stop) div step < 0"
        using \<open>i < stop\<close> "1.prems" by (simp add: pos_imp_zdiv_neg_iff)
      ultimately have "(i - stop) div step = - 1" using shift by linarith
      then show ?thesis using r ih False \<open>i < stop\<close> by simp
    qed
  next
    case False
    then show ?thesis using "1.prems" by (simp add: range_from_done)
  qed
qed

lemma chunks_bounded:
  "0 < step \<Longrightarrow> 0 \<le> i \<Longrightarrow> stop = int (length lst) \<Longrightarrow>
     \<forall>c\<in>set (map (\<lambda>j. py_slice lst j (j + step)) (range_from i stop step)).
        c \<noteq> [] \<and> int (length c) \<le> step"
proof (induction i stop step rule: range_from.induct)
  case (1 i stop step)
  show ?case
  proof (cases "i < stop")
    case True
    have r: "range_from i stop step = i # range_from (i + step) stop step"
      using True "1.prems" by (simp add: range_from_step)
    have ih: "\<forall>c\<in>set (map (\<lambda>j. py_slice lst j (j + step)) (range_from (i + step) stop step)).
        c \<noteq> [] \<and> int (length c) \<le> step"
      using "1.IH"(1) True "1.prems" by simp
    have sl: "py_slice lst i (i + step) = take (nat step) (drop (nat i) lst)"
      using slice_chunk[of i lst step] True "1.prems" by simp
    have "nat i < length lst" using True "1.prems" by simp
    then have ne: "take (nat step) (drop (nat i) lst) \<noteq> []" using "1.prems" by simp
    have "length (take (nat step) (drop (nat i) lst)) \<le> nat step" by simp
    then have le: "int (length (take (nat step) (drop (nat i) lst))) \<le> step"
      using "1.prems"(1) by linarith
    show ?thesis using r ih sl ne le by simp
  next
    case False
    have r: "range_from i stop step = []"
      using False "1.prems" by (simp add: range_from_done)
    then show ?thesis by simp
  qed
qed

text \<open>
  Claim C5. For a positive chunk size, \<^verbatim>\<open>divide\<close> returns (raises nothing); the chunks
  concatenated are the list; their number is the length divided by the size, rounded
  up; no chunk is empty or longer than the size; the empty list has no chunk; and a
  non-empty list no longer than the size is its own single chunk.
\<close>

theorem divide_partitions:
  assumes "0 < n"
  shows "\<exists>chunks. divide lst n = Inr chunks
           \<and> concat chunks = lst
           \<and> int (length chunks) = \<lceil>real (length lst) / real_of_int n\<rceil>
           \<and> (\<forall>c\<in>set chunks. c \<noteq> [] \<and> int (length c) \<le> n)
           \<and> (lst = [] \<longrightarrow> chunks = [])
           \<and> (lst \<noteq> [] \<and> int (length lst) \<le> n \<longrightarrow> chunks = [lst])"
proof -
  let ?L = "int (length lst)"
  let ?starts = "range_from 0 ?L n"
  let ?chunks = "map (\<lambda>i. py_slice lst i (i + n)) ?starts"
  have d: "divide lst n = Inr ?chunks"
    using assms by (simp add: divide_def py_range_def)
  have c: "concat ?chunks = lst"
    using concat_chunks_from[of n 0 ?L lst] assms by simp
  have len: "int (length ?starts) = - ((- ?L) div n)"
  proof (cases "0 < ?L")
    case True
    then show ?thesis using length_range_from[OF assms, of 0 ?L] by simp
  next
    case False
    then have "?L = 0" by simp
    then show ?thesis using length_range_from[OF assms, of 0 ?L] by simp
  qed
  have "\<lceil>real_of_int ?L / real_of_int n\<rceil> = - ((- ?L) div n)"
    by (rule ceiling_divide_eq_div)
  then have l: "int (length ?chunks) = \<lceil>real (length lst) / real_of_int n\<rceil>"
    using len by simp
  have b: "\<forall>c\<in>set ?chunks. c \<noteq> [] \<and> int (length c) \<le> n"
    using chunks_bounded[of n 0 ?L lst] assms by simp
  have e: "lst = [] \<longrightarrow> ?chunks = []"
    using assms by (simp add: range_from_done)
  have o: "lst \<noteq> [] \<and> ?L \<le> n \<longrightarrow> ?chunks = [lst]"
  proof
    assume a: "lst \<noteq> [] \<and> ?L \<le> n"
    then have 1: "range_from 0 ?L n = 0 # range_from (0 + n) ?L n"
      using assms by (intro range_from_step) simp_all
    have 2: "range_from (0 + n) ?L n = []"
      using a assms by (intro range_from_done) simp_all
    have "py_slice lst 0 (0 + n) = take (nat n) (drop (nat 0) lst)"
      using slice_chunk[of 0 lst n] assms by simp
    moreover have "length lst \<le> nat n" using a by linarith
    then have "take (nat n) lst = lst" by simp
    ultimately have 3: "py_slice lst 0 (0 + n) = lst"
      using \<open>take (nat n) lst = lst\<close> by simp
    show "?chunks = [lst]" by (simp only: 1 2 list.map 3)
  qed
  show ?thesis
    by (rule exI[of _ ?chunks]) (intro conjI d c l b e o)
qed

theorem divide_partitions_witness:
  "(0::int) < 2
   \<and> divide [1, 2, 3, 4, 5 :: nat] 2 = Inr [[1, 2], [3, 4], [5]]
   \<and> \<lceil>real (length [1, 2, 3, 4, 5 :: nat]) / real_of_int 2\<rceil> = 3"
proof -
  have h: "(0::int) < 2" by simp
  have v: "divide [1, 2, 3, 4, 5 :: nat] 2 = Inr [[1, 2], [3, 4], [5]]"
    by (simp add: divide_def py_range_def range_from.simps py_slice_def slice_index_def)
  from divide_partitions [OF h, of "[1, 2, 3, 4, 5 :: nat]"]
  obtain chunks where ch: "divide [1, 2, 3, 4, 5 :: nat] 2 = Inr chunks"
    and ln: "int (length chunks) = \<lceil>real (length [1, 2, 3, 4, 5 :: nat]) / real_of_int 2\<rceil>"
    by (elim exE conjE)
  from ch v have "chunks = [[1, 2], [3, 4], [5]]" by simp
  with ln have "\<lceil>real (length [1, 2, 3, 4, 5 :: nat]) / real_of_int 2\<rceil> = 3" by simp
  with h v show ?thesis by (intro conjI)
qed

section \<open>Fetching the catalogue: when the loop ends and what it returns\<close>

lemma ozon_fetched_before: "ozon_fetched srv k = ozon_before srv k @ ozon_reply_items srv k"
  by (simp add: ozon_fetched_def ozon_before_def)

lemma ozon_before_Suc: "ozon_before srv (Suc k) = ozon_fetched srv k"
  by (simp add: ozon_fetched_def ozon_before_def)

lemma ozon_step_continues:
  assumes "ozon_continues srv k"
  shows "ozon_fetch srv k (ozon_cursor srv k) (ozon_before srv k)
           = ozon_fetch srv (Suc k) (ozon_cursor srv (Suc k)) (ozon_before srv (Suc k))"
proof -
  from assms obtain p where p: "srv k (ozon_cursor srv k) = Inr p"
    and ne: "total p \<noteq> int (length (ozon_fetched srv k))"
    by (auto simp: ozon_continues_def ozon_reply_def split: sum.splits)
  have it: "ozon_reply_items srv k = ozon_items p"
    by (simp add: ozon_reply_items_def ozon_reply_def p)
  have f: "ozon_before srv k @ ozon_items p = ozon_fetched srv k"
    by (simp add: ozon_fetched_before it)
  have c: "ozon_cursor srv (Suc k) = last_id p" by (simp add: p)
  show ?thesis
    by (subst ozon_fetch.simps) (simp add: p f ne c ozon_before_Suc)
qed

lemma ozon_step_signal:
  assumes "ozon_signal srv k"
  shows "ozon_fetch srv k (ozon_cursor srv k) (ozon_before srv k) = Some (Inr (ozon_fetched srv k))"
proof -
  from assms obtain p where p: "srv k (ozon_cursor srv k) = Inr p"
    and eq: "total p = int (length (ozon_fetched srv k))"
    by (auto simp: ozon_signal_def ozon_reply_def split: sum.splits)
  have it: "ozon_reply_items srv k = ozon_items p"
    by (simp add: ozon_reply_items_def ozon_reply_def p)
  have f: "ozon_before srv k @ ozon_items p = ozon_fetched srv k"
    by (simp add: ozon_fetched_before it)
  show ?thesis
    by (subst ozon_fetch.simps) (simp add: p f eq)
qed

lemma ozon_step_error:
  assumes "ozon_reply srv k = Inl e"
  shows "ozon_fetch srv k (ozon_cursor srv k) (ozon_before srv k) = Some (Inl e)"
  using assms by (subst ozon_fetch.simps) (simp add: ozon_reply_def)

lemma ozon_run_upto:
  "list_all (ozon_continues srv) [0..<k] \<Longrightarrow>
     ozon_fetch srv 0 [] [] = ozon_fetch srv k (ozon_cursor srv k) (ozon_before srv k)"
proof (induction k)
  case 0
  show ?case by (simp add: ozon_before_def)
next
  case (Suc k)
  then have "list_all (ozon_continues srv) [0..<k]" and c: "ozon_continues srv k" by simp_all
  with Suc.IH have "ozon_fetch srv 0 [] [] = ozon_fetch srv k (ozon_cursor srv k) (ozon_before srv k)"
    by simp
  then show ?case using ozon_step_continues[OF c] by simp
qed

lemma ozon_returns_stops_aux:
  assumes "ozon_fetch srv k c acc = Some y"
  shows "c = ozon_cursor srv k \<longrightarrow> acc = ozon_before srv k \<longrightarrow> (\<exists>n. \<not> ozon_continues srv n)"
proof (rule ozon_fetch.raw_induct
    [where P = "\<lambda>srv k c acc y. c = ozon_cursor srv k \<longrightarrow> acc = ozon_before srv k
                  \<longrightarrow> (\<exists>n. \<not> ozon_continues srv n)", OF _ assms])
  fix f :: "ozon_server \<Rightarrow> nat \<Rightarrow> string \<Rightarrow> ozon_product list \<Rightarrow> (error + ozon_product list) option"
  fix srv k c acc y
  assume IH: "\<And>srv k c acc y. f srv k c acc = Some y \<Longrightarrow>
      c = ozon_cursor srv k \<longrightarrow> acc = ozon_before srv k \<longrightarrow> (\<exists>n. \<not> ozon_continues srv n)"
  assume body: "(case srv k c of
        Inl e \<Rightarrow> Some (Inl e)
      | Inr some_prod \<Rightarrow>
          (let product_list' = acc @ ozon_items some_prod
           in if total some_prod = int (length product_list') then Some (Inr product_list')
              else f srv (Suc k) (last_id some_prod) product_list')) = Some y"
  show "c = ozon_cursor srv k \<longrightarrow> acc = ozon_before srv k \<longrightarrow> (\<exists>n. \<not> ozon_continues srv n)"
  proof (intro impI)
    assume c: "c = ozon_cursor srv k" and a: "acc = ozon_before srv k"
    show "\<exists>n. \<not> ozon_continues srv n"
    proof (cases "ozon_continues srv k")
      case False
      then show ?thesis by blast
    next
      case True
      then obtain p where p: "srv k (ozon_cursor srv k) = Inr p"
        and ne: "total p \<noteq> int (length (ozon_fetched srv k))"
        by (auto simp: ozon_continues_def ozon_reply_def split: sum.splits)
      have it: "ozon_reply_items srv k = ozon_items p"
        by (simp add: ozon_reply_items_def ozon_reply_def p)
      have fb: "ozon_before srv k @ ozon_items p = ozon_fetched srv k"
        by (simp add: ozon_fetched_before it)
      from body have "f srv (Suc k) (last_id p) (ozon_fetched srv k) = Some y"
        using p ne fb c a by simp
      from IH[OF this] show ?thesis
        by (simp add: p ozon_before_Suc)
    qed
  qed
qed

lemma ozon_returns_stops:
  assumes "ozon_fetch srv 0 [] [] = Some y"
  shows "\<exists>k. list_all (ozon_continues srv) [0..<k] \<and> \<not> ozon_continues srv k"
proof -
  from ozon_returns_stops_aux[OF assms] have "\<exists>n. \<not> ozon_continues srv n"
    by (simp add: ozon_before_def)
  then obtain k where k: "\<not> ozon_continues srv k" and least: "\<forall>j<k. ozon_continues srv j"
    using exists_least_iff[of "\<lambda>n. \<not> ozon_continues srv n"] by auto
  from least have "list_all (ozon_continues srv) [0..<k]" by (simp add: list_all_iff)
  with k show ?thesis by blast
qed

lemma ozon_stop_cases:
  assumes "\<not> ozon_continues srv k"
  shows "ozon_signal srv k \<or> (\<exists>e. ozon_reply srv k = Inl e)"
  using assms by (auto simp: ozon_continues_def ozon_signal_def split: sum.splits)

lemma get_offer_ids_returns:
  assumes "list_all (ozon_continues srv) [0..<k]" and "ozon_signal srv k"
  shows "get_offer_ids srv = Some (Inr (map product_offer_id (ozon_fetched srv k)))"
proof -
  have "ozon_fetch srv 0 [] [] = Some (Inr (ozon_fetched srv k))"
    using ozon_run_upto[OF assms(1)] ozon_step_signal[OF assms(2)] by simp
  then show ?thesis by (simp add: get_offer_ids_def)
qed

lemma get_offer_ids_only_on_signal:
  assumes "get_offer_ids srv = Some (Inr ids)"
  shows "\<exists>k. list_all (ozon_continues srv) [0..<k] \<and> ozon_signal srv k"
proof -
  from assms obtain pl where r: "ozon_fetch srv 0 [] [] = Some (Inr pl)"
    by (auto simp: get_offer_ids_def split: option.splits sum.splits)
  from ozon_returns_stops[OF r] obtain k where ok: "list_all (ozon_continues srv) [0..<k]"
    and st: "\<not> ozon_continues srv k" by blast
  from ozon_stop_cases[OF st] show ?thesis
  proof
    assume "ozon_signal srv k"
    with ok show ?thesis by blast
  next
    assume "\<exists>e. ozon_reply srv k = Inl e"
    then obtain e where "ozon_reply srv k = Inl e" ..
    from ozon_step_error[OF this] ozon_run_upto[OF ok] r show ?thesis by simp
  qed
qed

lemma get_offer_ids_diverges:
  assumes "\<forall>k. ozon_continues srv k"
  shows "get_offer_ids srv = None"
proof (cases "ozon_fetch srv 0 [] []")
  case None
  then show ?thesis by (simp add: get_offer_ids_def)
next
  case (Some y)
  from ozon_returns_stops[OF Some] assms show ?thesis by blast
qed

lemma market_fetched_before:
  "market_fetched srv k = market_before srv k @ market_reply_entries srv k"
  by (simp add: market_fetched_def market_before_def)

lemma market_before_Suc: "market_before srv (Suc k) = market_fetched srv k"
  by (simp add: market_fetched_def market_before_def)

lemma market_step_continues:
  assumes "market_continues srv k"
  shows "market_fetch srv k (market_cursor srv k) (market_before srv k)
           = market_fetch srv (Suc k) (market_cursor srv (Suc k)) (market_before srv (Suc k))"
proof -
  from assms obtain p where p: "srv k (market_cursor srv k) = Inr p"
    and ne: "\<not> falsy (nextPageToken (paging p))"
    by (auto simp: market_continues_def market_reply_def split: sum.splits)
  have it: "market_reply_entries srv k = offerMappingEntries p"
    by (simp add: market_reply_entries_def market_reply_def p)
  have f: "market_before srv k @ offerMappingEntries p = market_fetched srv k"
    by (simp add: market_fetched_before it)
  have c: "market_cursor srv (Suc k) = nextPageToken (paging p)" by (simp add: p)
  show ?thesis
    by (subst market_fetch.simps) (simp add: p f ne c market_before_Suc)
qed

lemma market_step_signal:
  assumes "market_signal srv k"
  shows "market_fetch srv k (market_cursor srv k) (market_before srv k)
           = Some (Inr (market_fetched srv k))"
proof -
  from assms obtain p where p: "srv k (market_cursor srv k) = Inr p"
    and eq: "falsy (nextPageToken (paging p))"
    by (auto simp: market_signal_def market_reply_def split: sum.splits)
  have it: "market_reply_entries srv k = offerMappingEntries p"
    by (simp add: market_reply_entries_def market_reply_def p)
  have f: "market_before srv k @ offerMappingEntries p = market_fetched srv k"
    by (simp add: market_fetched_before it)
  show ?thesis
    by (subst market_fetch.simps) (simp add: p f eq)
qed

lemma market_step_error:
  assumes "market_reply srv k = Inl e"
  shows "market_fetch srv k (market_cursor srv k) (market_before srv k) = Some (Inl e)"
  using assms by (subst market_fetch.simps) (simp add: market_reply_def)

lemma market_run_upto:
  "list_all (market_continues srv) [0..<k] \<Longrightarrow>
     market_fetch srv 0 (Some []) [] = market_fetch srv k (market_cursor srv k) (market_before srv k)"
proof (induction k)
  case 0
  show ?case by (simp add: market_before_def)
next
  case (Suc k)
  then have "list_all (market_continues srv) [0..<k]" and c: "market_continues srv k" by simp_all
  with Suc.IH have "market_fetch srv 0 (Some []) []
      = market_fetch srv k (market_cursor srv k) (market_before srv k)"
    by simp
  then show ?case using market_step_continues[OF c] by simp
qed

lemma market_returns_stops_aux:
  assumes "market_fetch srv k c acc = Some y"
  shows "c = market_cursor srv k \<longrightarrow> acc = market_before srv k
           \<longrightarrow> (\<exists>n. \<not> market_continues srv n)"
proof (rule market_fetch.raw_induct
    [where P = "\<lambda>srv k c acc y. c = market_cursor srv k \<longrightarrow> acc = market_before srv k
                  \<longrightarrow> (\<exists>n. \<not> market_continues srv n)", OF _ assms])
  fix f :: "market_server \<Rightarrow> nat \<Rightarrow> string option \<Rightarrow> offer_mapping_entry list
              \<Rightarrow> (error + offer_mapping_entry list) option"
  fix srv k c acc y
  assume IH: "\<And>srv k c acc y. f srv k c acc = Some y \<Longrightarrow>
      c = market_cursor srv k \<longrightarrow> acc = market_before srv k \<longrightarrow> (\<exists>n. \<not> market_continues srv n)"
  assume body: "(case srv k c of
        Inl e \<Rightarrow> Some (Inl e)
      | Inr some_prod \<Rightarrow>
          (let product_list' = acc @ offerMappingEntries some_prod;
               page' = nextPageToken (paging some_prod)
           in if falsy page' then Some (Inr product_list')
              else f srv (Suc k) page' product_list')) = Some y"
  show "c = market_cursor srv k \<longrightarrow> acc = market_before srv k
          \<longrightarrow> (\<exists>n. \<not> market_continues srv n)"
  proof (intro impI)
    assume c: "c = market_cursor srv k" and a: "acc = market_before srv k"
    show "\<exists>n. \<not> market_continues srv n"
    proof (cases "market_continues srv k")
      case False
      then show ?thesis by blast
    next
      case True
      then obtain p where p: "srv k (market_cursor srv k) = Inr p"
        and ne: "\<not> falsy (nextPageToken (paging p))"
        by (auto simp: market_continues_def market_reply_def split: sum.splits)
      have it: "market_reply_entries srv k = offerMappingEntries p"
        by (simp add: market_reply_entries_def market_reply_def p)
      have fb: "market_before srv k @ offerMappingEntries p = market_fetched srv k"
        by (simp add: market_fetched_before it)
      from body have "f srv (Suc k) (nextPageToken (paging p)) (market_fetched srv k) = Some y"
        using p ne fb c a by simp
      from IH[OF this] show ?thesis
        by (simp add: p market_before_Suc)
    qed
  qed
qed

lemma market_returns_stops:
  assumes "market_fetch srv 0 (Some []) [] = Some y"
  shows "\<exists>k. list_all (market_continues srv) [0..<k] \<and> \<not> market_continues srv k"
proof -
  from market_returns_stops_aux[OF assms] have "\<exists>n. \<not> market_continues srv n"
    by (simp add: market_before_def)
  then obtain k where k: "\<not> market_continues srv k" and least: "\<forall>j<k. market_continues srv j"
    using exists_least_iff[of "\<lambda>n. \<not> market_continues srv n"] by auto
  from least have "list_all (market_continues srv) [0..<k]" by (simp add: list_all_iff)
  with k show ?thesis by blast
qed

lemma market_stop_cases:
  assumes "\<not> market_continues srv k"
  shows "market_signal srv k \<or> (\<exists>e. market_reply srv k = Inl e)"
  using assms by (auto simp: market_continues_def market_signal_def split: sum.splits)

lemma market_get_offer_ids_returns:
  assumes "list_all (market_continues srv) [0..<k]" and "market_signal srv k"
  shows "market_get_offer_ids srv
           = Some (Inr (map (\<lambda>product. shopSku (offer product)) (market_fetched srv k)))"
proof -
  have "market_fetch srv 0 (Some []) [] = Some (Inr (market_fetched srv k))"
    using market_run_upto[OF assms(1)] market_step_signal[OF assms(2)] by simp
  then show ?thesis by (simp add: market_get_offer_ids_def)
qed

lemma market_get_offer_ids_only_on_signal:
  assumes "market_get_offer_ids srv = Some (Inr ids)"
  shows "\<exists>k. list_all (market_continues srv) [0..<k] \<and> market_signal srv k"
proof -
  from assms obtain pl where r: "market_fetch srv 0 (Some []) [] = Some (Inr pl)"
    by (auto simp: market_get_offer_ids_def split: option.splits sum.splits)
  from market_returns_stops[OF r] obtain k where ok: "list_all (market_continues srv) [0..<k]"
    and st: "\<not> market_continues srv k" by blast
  from market_stop_cases[OF st] show ?thesis
  proof
    assume "market_signal srv k"
    with ok show ?thesis by blast
  next
    assume "\<exists>e. market_reply srv k = Inl e"
    then obtain e where "market_reply srv k = Inl e" ..
    from market_step_error[OF this] market_run_upto[OF ok] r show ?thesis by simp
  qed
qed

lemma market_get_offer_ids_diverges:
  assumes "\<forall>k. market_continues srv k"
  shows "market_get_offer_ids srv = None"
proof (cases "market_fetch srv 0 (Some []) []")
  case None
  then show ?thesis by (simp add: market_get_offer_ids_def)
next
  case (Some y)
  from market_returns_stops[OF Some] assms show ?thesis by blast
qed

text \<open>
  Claim C7. \<^verbatim>\<open>get_offer_ids\<close> returns a list exactly when, after replies that are pages and
  let the run go on, a reply signals the end: for Ozon a page whose \<^verbatim>\<open>total\<close> equals the
  number of items fetched so far, for Yandex Market a page whose next-page token is empty
  or absent. It then returns the identifiers of all the items fetched, page after page.
  When every reply lets the run go on, the loop never ends.
\<close>

theorem pagination_stops_on_signal:
  "(list_all (ozon_continues srv) [0..<k] \<and> ozon_signal srv k \<longrightarrow>
      get_offer_ids srv = Some (Inr (map product_offer_id (ozon_fetched srv k))))
   \<and> ((\<exists>ids. get_offer_ids srv = Some (Inr ids)) \<longrightarrow>
        (\<exists>n. list_all (ozon_continues srv) [0..<n] \<and> ozon_signal srv n))
   \<and> ((\<forall>n. ozon_continues srv n) \<longrightarrow> get_offer_ids srv = None)
   \<and> (list_all (market_continues msrv) [0..<m] \<and> market_signal msrv m \<longrightarrow>
      market_get_offer_ids msrv
        = Some (Inr (map (\<lambda>product. shopSku (offer product)) (market_fetched msrv m))))
   \<and> ((\<exists>ids. market_get_offer_ids msrv = Some (Inr ids)) \<longrightarrow>
        (\<exists>n. list_all (market_continues msrv) [0..<n] \<and> market_signal msrv n))
   \<and> ((\<forall>n. market_continues msrv n) \<longrightarrow> market_get_offer_ids msrv = None)"
proof (intro conjI impI)
  assume "list_all (ozon_continues srv) [0..<k] \<and> ozon_signal srv k"
  then show "get_offer_ids srv = Some (Inr (map product_offer_id (ozon_fetched srv k)))"
    using get_offer_ids_returns by blast
next
  assume "\<exists>ids. get_offer_ids srv = Some (Inr ids)"
  then show "\<exists>n. list_all (ozon_continues srv) [0..<n] \<and> ozon_signal srv n"
    using get_offer_ids_only_on_signal by blast
next
  assume "\<forall>n. ozon_continues srv n"
  then show "get_offer_ids srv = None" by (rule get_offer_ids_diverges)
next
  assume "list_all (market_continues msrv) [0..<m] \<and> market_signal msrv m"
  then show "market_get_offer_ids msrv
        = Some (Inr (map (\<lambda>product. shopSku (offer product)) (market_fetched msrv m)))"
    using market_get_offer_ids_returns by blast
next
  assume "\<exists>ids. market_get_offer_ids msrv = Some (Inr ids)"
  then show "\<exists>n. list_all (market_continues msrv) [0..<n] \<and> market_signal msrv n"
    using market_get_offer_ids_only_on_signal by blast
next
  assume "\<forall>n. market_continues msrv n"
  then show "market_get_offer_ids msrv = None" by (rule market_get_offer_ids_diverges)
qed

text \<open>
  A run of each variant on two pages: the Ozon marketplace answers the empty cursor
  with the page of A and any other cursor with the page of B, both reporting a total
  of 2; the Yandex marketplace gives the token \<^verbatim>\<open>t\<close> with the first page and none with
  the second. A marketplace whose pages are empty and report a total of 1 never lets
  the Ozon loop end.
\<close>

theorem pagination_stops_on_signal_witness:
  "list_all (ozon_continues
       (\<lambda>k c. if c = [] then Inr \<lparr>ozon_items = [\<lparr>product_offer_id = ''A''\<rparr>], total = 2, last_id = ''A''\<rparr>
               else Inr \<lparr>ozon_items = [\<lparr>product_offer_id = ''B''\<rparr>], total = 2, last_id = ''B''\<rparr>)) [0..<1]
   \<and> ozon_signal
       (\<lambda>k c. if c = [] then Inr \<lparr>ozon_items = [\<lparr>product_offer_id = ''A''\<rparr>], total = 2, last_id = ''A''\<rparr>
               else Inr \<lparr>ozon_items = [\<lparr>product_offer_id = ''B''\<rparr>], total = 2, last_id = ''B''\<rparr>) 1
   \<and> get_offer_ids
       (\<lambda>k c. if c = [] then Inr \<lparr>ozon_items = [\<lparr>product_offer_id = ''A''\<rparr>], total = 2, last_id = ''A''\<rparr>
               else Inr \<lparr>ozon_items = [\<lparr>product_offer_id = ''B''\<rparr>], total = 2, last_id = ''B''\<rparr>)
       = Some (Inr [''A'', ''B''])
   \<and> list_all (market_continues
       (\<lambda>k c. if c = Some [] then Inr \<lparr>offerMappingEntries = [\<lparr>offer = \<lparr>shopSku = ''A''\<rparr>\<rparr>],
                                         paging = \<lparr>nextPageToken = Some ''t''\<rparr>\<rparr>
               else Inr \<lparr>offerMappingEntries = [\<lparr>offer = \<lparr>shopSku = ''B''\<rparr>\<rparr>],
                         paging = \<lparr>nextPageToken = None\<rparr>\<rparr>)) [0..<1]
   \<and> market_signal
       (\<lambda>k c. if c = Some [] then Inr \<lparr>offerMappingEntries = [\<lparr>offer = \<lparr>shopSku = ''A''\<rparr>\<rparr>],
                                         paging = \<lparr>nextPageToken = Some ''t''\<rparr>\<rparr>
               else Inr \<lparr>offerMappingEntries = [\<lparr>offer = \<lparr>shopSku = ''B''\<rparr>\<rparr>],
                         paging = \<lparr>nextPageToken = None\<rparr>\<rparr>) 1
   \<and> market_get_offer_ids
       (\<lambda>k c. if c = Some [] then Inr \<lparr>offerMappingEntries = [\<lparr>offer = \<lparr>shopSku = ''A''\<rparr>\<rparr>],
                                         paging = \<lparr>nextPageToken = Some ''t''\<rparr>\<rparr>
               else Inr \<lparr>offerMappingEntries = [\<lparr>offer = \<lparr>shopSku = ''B''\<rparr>\<rparr>],
                         paging = \<lparr>nextPageToken = None\<rparr>\<rparr>)
       = Some (Inr [''A'', ''B''])
   \<and> (\<forall>n. ozon_continues (\<lambda>k c. Inr \<lparr>ozon_items = [], total = 1, last_id = []\<rparr>) n)
   \<and> get_offer_ids (\<lambda>k c. Inr \<lparr>ozon_items = [], total = 1, last_id = []\<rparr>) = None"
proof -
  let ?s = "\<lambda>(k::nat) c. if c = [] then Inr \<lparr>ozon_items = [\<lparr>product_offer_id = ''A''\<rparr>], total = 2, last_id = ''A''\<rparr>
               else (Inr \<lparr>ozon_items = [\<lparr>product_offer_id = ''B''\<rparr>], total = 2, last_id = ''B''\<rparr> :: error + ozon_page)"
  let ?m = "\<lambda>(k::nat) c. if c = Some [] then Inr \<lparr>offerMappingEntries = [\<lparr>offer = \<lparr>shopSku = ''A''\<rparr>\<rparr>],
                                         paging = \<lparr>nextPageToken = Some ''t''\<rparr>\<rparr>
               else (Inr \<lparr>offerMappingEntries = [\<lparr>offer = \<lparr>shopSku = ''B''\<rparr>\<rparr>],
                         paging = \<lparr>nextPageToken = None\<rparr>\<rparr> :: error + market_page)"
  let ?d = "\<lambda>(k::nat) (c::string). (Inr \<lparr>ozon_items = [], total = 1, last_id = []\<rparr> :: error + ozon_page)"
  have c1: "ozon_cursor ?s (Suc 0) = ''A''" by simp
  have i0: "ozon_reply_items ?s 0 = [\<lparr>product_offer_id = ''A''\<rparr>]"
    by (simp add: ozon_reply_items_def ozon_reply_def)
  have i1: "ozon_reply_items ?s (Suc 0) = [\<lparr>product_offer_id = ''B''\<rparr>]"
    by (simp add: ozon_reply_items_def ozon_reply_def)
  have f0: "ozon_fetched ?s 0 = [\<lparr>product_offer_id = ''A''\<rparr>]"
    by (simp add: ozon_fetched_def i0)
  have f1: "ozon_fetched ?s (Suc 0) = [\<lparr>product_offer_id = ''A''\<rparr>, \<lparr>product_offer_id = ''B''\<rparr>]"
    by (simp add: ozon_fetched_def i0 i1)
  have o1: "list_all (ozon_continues ?s) [0..<1]"
    by (simp add: ozon_continues_def ozon_reply_def f0)
  have o2: "ozon_signal ?s 1"
    by (simp add: ozon_signal_def ozon_reply_def f1)
  have mc1: "market_cursor ?m (Suc 0) = Some ''t''" by simp
  have e0: "market_reply_entries ?m 0 = [\<lparr>offer = \<lparr>shopSku = ''A''\<rparr>\<rparr>]"
    by (simp add: market_reply_entries_def market_reply_def)
  have e1: "market_reply_entries ?m (Suc 0) = [\<lparr>offer = \<lparr>shopSku = ''B''\<rparr>\<rparr>]"
    by (simp add: market_reply_entries_def market_reply_def)
  have mf1: "market_fetched ?m (Suc 0) = [\<lparr>offer = \<lparr>shopSku = ''A''\<rparr>\<rparr>, \<lparr>offer = \<lparr>shopSku = ''B''\<rparr>\<rparr>]"
    by (simp add: market_fetched_def e0 e1)
  have m1: "list_all (market_continues ?m) [0..<1]"
    by (simp add: market_continues_def market_reply_def falsy_def)
  have m2: "market_signal ?m 1"
    by (simp add: market_signal_def market_reply_def falsy_def)
  have di: "\<And>n. ozon_reply_items ?d n = []"
    by (simp add: ozon_reply_items_def ozon_reply_def)
  have df: "\<And>n. ozon_fetched ?d n = []"
    by (simp add: ozon_fetched_def di)
  have d1: "\<forall>n. ozon_continues ?d n"
    by (simp add: ozon_continues_def ozon_reply_def df)
  note t = pagination_stops_on_signal [of ?s 1 ?m 1]
  note u = pagination_stops_on_signal [of ?d 0 ?m 0]
  from t o1 o2 have r1: "get_offer_ids ?s = Some (Inr (map product_offer_id (ozon_fetched ?s 1)))"
    by blast
  then have r1': "get_offer_ids ?s = Some (Inr [''A'', ''B''])" by (simp add: f1)
  from t m1 m2 have r2: "market_get_offer_ids ?m
      = Some (Inr (map (\<lambda>product. shopSku (offer product)) (market_fetched ?m 1)))"
    by blast
  then have r2': "market_get_offer_ids ?m = Some (Inr [''A'', ''B''])" by (simp add: mf1)
  from u d1 have r3: "get_offer_ids ?d = None" by blast
  from o1 o2 r1' m1 m2 r2' d1 r3 show ?thesis by (intro conjI)
qed

text \<open>
  Claim C6 as stated fails: nothing in \<^verbatim>\<open>get_offer_ids\<close> removes a repeated identifier.
  An identifier that is twice on one Ozon page, or on two Yandex pages, is twice in the
  result.
\<close>

theorem get_offer_ids_duplicates_counterexample:
  "get_offer_ids
     (\<lambda>k c. Inr \<lparr>ozon_items = [\<lparr>product_offer_id = ''A''\<rparr>, \<lparr>product_offer_id = ''A''\<rparr>],
                  total = 2, last_id = ''A''\<rparr>)
     = Some (Inr [''A'', ''A''])
   \<and> market_get_offer_ids
       (\<lambda>k c. if c = Some [] then Inr \<lparr>offerMappingEntries = [\<lparr>offer = \<lparr>shopSku = ''A''\<rparr>\<rparr>],
                                         paging = \<lparr>nextPageToken = Some ''t''\<rparr>\<rparr>
               else Inr \<lparr>offerMappingEntries = [\<lparr>offer = \<lparr>shopSku = ''A''\<rparr>\<rparr>],
                         paging = \<lparr>nextPageToken = None\<rparr>\<rparr>)
     = Some (Inr [''A'', ''A''])
   \<and> \<not> distinct [''A'', ''A'']"
proof -
  have 1: "get_offer_ids
     (\<lambda>k c. Inr \<lparr>ozon_items = [\<lparr>product_offer_id = ''A''\<rparr>, \<lparr>product_offer_id = ''A''\<rparr>],
                  total = 2, last_id = ''A''\<rparr>)
     = Some (Inr [''A'', ''A''])"
    unfolding get_offer_ids_def by (subst ozon_fetch.simps) simp
  have 2: "market_get_offer_ids
       (\<lambda>k c. if c = Some [] then Inr \<lparr>offerMappingEntries = [\<lparr>offer = \<lparr>shopSku = ''A''\<rparr>\<rparr>],
                                         paging = \<lparr>nextPageToken = Some ''t''\<rparr>\<rparr>
               else Inr \<lparr>offerMappingEntries = [\<lparr>offer = \<lparr>shopSku = ''A''\<rparr>\<rparr>],
                         paging = \<lparr>nextPageToken = None\<rparr>\<rparr>)
     = Some (Inr [''A'', ''A''])"
    unfolding market_get_offer_ids_def
    by (subst market_fetch.simps, simp add: falsy_def, subst market_fetch.simps, simp add: falsy_def)
  have 3: "\<not> distinct [''A'', ''A'']" by simp
  from 1 2 3 show ?thesis by (intro conjI)
qed

text \<open>
  Claim C6, amended. When the run ends on a signal, \<^verbatim>\<open>get_offer_ids\<close> returns the
  identifiers of all the items of all the pages fetched, in the order of the pages and
  of the items on them, repetitions included: as many identifiers as there are items.
\<close>

theorem get_offer_ids_complete:
  "(list_all (ozon_continues srv) [0..<k] \<and> ozon_signal srv k \<longrightarrow>
      (\<exists>ids. get_offer_ids srv = Some (Inr ids)
         \<and> ids = concat (map (\<lambda>j. map product_offer_id (ozon_reply_items srv j)) [0..<Suc k])
         \<and> length ids = sum_list (map (\<lambda>j. length (ozon_reply_items srv j)) [0..<Suc k])))
   \<and> (list_all (market_continues msrv) [0..<m] \<and> market_signal msrv m \<longrightarrow>
      (\<exists>ids. market_get_offer_ids msrv = Some (Inr ids)
         \<and> ids = concat (map (\<lambda>j. map (\<lambda>product. shopSku (offer product))
                                     (market_reply_entries msrv j)) [0..<Suc m])
         \<and> length ids = sum_list (map (\<lambda>j. length (market_reply_entries msrv j)) [0..<Suc m])))"
proof (intro conjI impI)
  assume a: "list_all (ozon_continues srv) [0..<k] \<and> ozon_signal srv k"
  let ?ids = "map product_offer_id (ozon_fetched srv k)"
  have r: "get_offer_ids srv = Some (Inr ?ids)" using a get_offer_ids_returns by blast
  have c: "?ids = concat (map (\<lambda>j. map product_offer_id (ozon_reply_items srv j)) [0..<Suc k])"
    unfolding ozon_fetched_def by (simp only: map_concat map_map comp_def)
  have l: "length ?ids = sum_list (map (\<lambda>j. length (ozon_reply_items srv j)) [0..<Suc k])"
    unfolding ozon_fetched_def by (simp only: length_map length_concat map_map comp_def)
  from r c l show "\<exists>ids. get_offer_ids srv = Some (Inr ids)
         \<and> ids = concat (map (\<lambda>j. map product_offer_id (ozon_reply_items srv j)) [0..<Suc k])
         \<and> length ids = sum_list (map (\<lambda>j. length (ozon_reply_items srv j)) [0..<Suc k])"
    by blast
next
  assume a: "list_all (market_continues msrv) [0..<m] \<and> market_signal msrv m"
  let ?ids = "map (\<lambda>product. shopSku (offer product)) (market_fetched msrv m)"
  have r: "market_get_offer_ids msrv = Some (Inr ?ids)"
    using a market_get_offer_ids_returns by blast
  have c: "?ids = concat (map (\<lambda>j. map (\<lambda>product. shopSku (offer product))
                                     (market_reply_entries msrv j)) [0..<Suc m])"
    unfolding market_fetched_def by (simp only: map_concat map_map comp_def)
  have l: "length ?ids = sum_list (map (\<lambda>j. length (market_reply_entries msrv j)) [0..<Suc m])"
    unfolding market_fetched_def by (simp only: length_map length_concat map_map comp_def)
  from r c l show "\<exists>ids. market_get_offer_ids msrv = Some (Inr ids)
         \<and> ids = concat (map (\<lambda>j. map (\<lambda>product. shopSku (offer product))
                                     (market_reply_entries msrv j)) [0..<Suc m])
         \<and> length ids = sum_list (map (\<lambda>j. length (market_reply_entries msrv j)) [0..<Suc m])"
    by blast
qed

theorem get_offer_ids_complete_witness:
  "list_all (ozon_continues
       (\<lambda>k c. Inr \<lparr>ozon_items = [\<lparr>product_offer_id = ''A''\<rparr>, \<lparr>product_offer_id = ''A''\<rparr>],
                    total = 2, last_id = ''A''\<rparr>)) [0..<0]
   \<and> ozon_signal
       (\<lambda>k c. Inr \<lparr>ozon_items = [\<lparr>product_offer_id = ''A''\<rparr>, \<lparr>product_offer_id = ''A''\<rparr>],
                    total = 2, last_id = ''A''\<rparr>) 0
   \<and> get_offer_ids
       (\<lambda>k c. Inr \<lparr>ozon_items = [\<lparr>product_offer_id = ''A''\<rparr>, \<lparr>product_offer_id = ''A''\<rparr>],
                    total = 2, last_id = ''A''\<rparr>)
       = Some (Inr [''A'', ''A''])
   \<and> list_all (market_continues
       (\<lambda>k c. Inr \<lparr>offerMappingEntries = [\<lparr>offer = \<lparr>shopSku = ''B''\<rparr>\<rparr>],
                    paging = \<lparr>nextPageToken = Some []\<rparr>\<rparr>)) [0..<0]
   \<and> market_signal
       (\<lambda>k c. Inr \<lparr>offerMappingEntries = [\<lparr>offer = \<lparr>shopSku = ''B''\<rparr>\<rparr>],
                    paging = \<lparr>nextPageToken = Some []\<rparr>\<rparr>) 0
   \<and> market_get_offer_ids
       (\<lambda>k c. Inr \<lparr>offerMappingEntries = [\<lparr>offer = \<lparr>shopSku = ''B''\<rparr>\<rparr>],
                    paging = \<lparr>nextPageToken = Some []\<rparr>\<rparr>)
       = Some (Inr [''B''])"
proof -
  let ?s = "\<lambda>(k::nat) (c::string).
      (Inr \<lparr>ozon_items = [\<lparr>product_offer_id = ''A''\<rparr>, \<lparr>product_offer_id = ''A''\<rparr>],
            total = 2, last_id = ''A''\<rparr> :: error + ozon_page)"
  let ?m = "\<lambda>(k::nat) (c::string option).
      (Inr \<lparr>offerMappingEntries = [\<lparr>offer = \<lparr>shopSku = ''B''\<rparr>\<rparr>],
            paging = \<lparr>nextPageToken = Some []\<rparr>\<rparr> :: error + market_page)"
  have i0: "ozon_reply_items ?s 0 = [\<lparr>product_offer_id = ''A''\<rparr>, \<lparr>product_offer_id = ''A''\<rparr>]"
    by (simp add: ozon_reply_items_def ozon_reply_def)
  have f0: "ozon_fetched ?s 0 = [\<lparr>product_offer_id = ''A''\<rparr>, \<lparr>product_offer_id = ''A''\<rparr>]"
    by (simp add: ozon_fetched_def i0)
  have o1: "list_all (ozon_continues ?s) [0..<0]" by simp
  have o2: "ozon_signal ?s 0" by (simp add: ozon_signal_def ozon_reply_def f0)
  have e0: "market_reply_entries ?m 0 = [\<lparr>offer = \<lparr>shopSku = ''B''\<rparr>\<rparr>]"
    by (simp add: market_reply_entries_def market_reply_def)
  have m1: "list_all (market_continues ?m) [0..<0]" by simp
  have m2: "market_signal ?m 0" by (simp add: market_signal_def market_reply_def falsy_def)
  note t = get_offer_ids_complete [of ?s 0 ?m 0]
  from t o1 o2 obtain ids where "get_offer_ids ?s = Some (Inr ids)"
    and "ids = concat (map (\<lambda>j. map product_offer_id (ozon_reply_items ?s j)) [0..<Suc 0])"
    by blast
  then have r1: "get_offer_ids ?s = Some (Inr [''A'', ''A''])" by (simp add: i0)
  from t m1 m2 obtain mids where "market_get_offer_ids ?m = Some (Inr mids)"
    and "mids = concat (map (\<lambda>j. map (\<lambda>product. shopSku (offer product))
                                     (market_reply_entries ?m j)) [0..<Suc 0])"
    by blast
  then have r2: "market_get_offer_ids ?m = Some (Inr [''B''])" by (simp add: e0)
  from o1 o2 r1 m1 m2 r2 show ?thesis by (intro conjI)
qed

end
